theory Spec2Isabelle
  imports Main "HOL-Library.Sublist" "HOL-Library.Word"
begin

section \<open>JavaScript values used by the plugin\<close>

text \<open>
  Strings are lists of code units; the plugin only compares them, takes prefixes and
  suffixes and concatenates them, so \<^typ>\<open>string\<close> stands for them.  A \<open>Uint8Array\<close> or
  \<open>Buffer\<close> is a list of bytes.
\<close>

type_synonym byte = "8 word"

text \<open>\<open>string | Uint8Array\<close>: the type of an asset's \<open>source\<close> and of the local
  variable \<open>source\<close> of \<open>calculateIntegrityHashes\<close> (where \<open>undefined\<close> is \<open>None\<close>).\<close>

datatype content = Str string | Buf "byte list"

text \<open>The truthiness that \<open>if (source)\<close> tests: \<open>undefined\<close> and the empty string are
  falsy, every object (so every \<open>Uint8Array\<close> and \<open>Buffer\<close>, also an empty one) is truthy.\<close>

fun truthy :: "content option \<Rightarrow> bool" where
  "truthy None = False"
| "truthy (Some (Str s)) = (s \<noteq> [])"
| "truthy (Some (Buf b)) = True"

text \<open>\<open>s.indexOf(b)\<close>: the least position at which \<open>b\<close> occurs in \<open>s\<close>, \<open>-1\<close> when there
  is none.\<close>

fun indexOf :: "string \<Rightarrow> string \<Rightarrow> int" where
  "indexOf [] b = (if b = [] then 0 else - 1)"
| "indexOf (c # cs) b =
     (if take (length b) (c # cs) = b then 0
      else (let r = indexOf cs b in if r < 0 then - 1 else r + 1))"

text \<open>\<open>s.substring(n)\<close> and \<open>s.endsWith(t)\<close>.\<close>

definition substring :: "string \<Rightarrow> nat \<Rightarrow> string" where
  "substring s n = drop n s"

definition endsWith :: "string \<Rightarrow> string \<Rightarrow> bool" where
  "endsWith s t = (length t \<le> length s \<and> drop (length s - length t) s = t)"

subsection \<open>Objects as ordered property lists\<close>

text \<open>
  A plain JavaScript object used as a dictionary (\<open>bundle\<close>, \<open>element.attribs\<close>) is the
  list of its own properties in the order \<open>Object.keys\<close> and \<open>Object.entries\<close> enumerate
  them: the keys that are array indices (canonical decimal numerals below \<open>2^32 - 1\<close>) in
  ascending numeric order, then the other keys in the order of their creation.  Property
  names are taken to be ordinary ones (the accessor \<open>__proto__\<close> is not among them).
\<close>

type_synonym 'v object = "(string \<times> 'v) list"

definition entries :: "'v object \<Rightarrow> (string \<times> 'v) list" where
  "entries obj = obj"

definition keys :: "'v object \<Rightarrow> string list" where
  "keys obj = map fst obj"

text \<open>\<open>obj[k]\<close>, with \<open>None\<close> for \<open>undefined\<close>.\<close>

definition get_prop :: "'v object \<Rightarrow> string \<Rightarrow> 'v option" where
  "get_prop obj k = map_of obj k"

definition arrayIndex :: "string \<Rightarrow> nat option" where
  "arrayIndex s =
     (let n = foldl (\<lambda>a c. 10 * a + (of_char c - 48)) (0::nat) s in
      if s \<noteq> [] \<and> list_all (\<lambda>c. c \<in> set ''0123456789'') s
         \<and> (s = ''0'' \<or> hd s \<noteq> CHR ''0'') \<and> n < 2 ^ 32 - 1
      then Some n else None)"

definition before :: "nat \<Rightarrow> string \<times> 'v \<Rightarrow> bool" where
  "before n p = (case arrayIndex (fst p) of Some m \<Rightarrow> m < n | None \<Rightarrow> False)"

text \<open>\<open>obj[k] = v\<close>: an existing property keeps its place and takes the new value; a new
  one is created at the place its key has in the enumeration order.\<close>

definition set_prop :: "'v object \<Rightarrow> string \<Rightarrow> 'v \<Rightarrow> 'v object" where
  "set_prop obj k v =
     (if k \<in> set (keys obj)
      then map (\<lambda>p. if fst p = k then (k, v) else p) obj
      else (case arrayIndex k of
              None \<Rightarrow> obj @ [(k, v)]
            | Some n \<Rightarrow> takeWhile (before n) obj @ (k, v) # dropWhile (before n) obj))"

section \<open>The data of a build\<close>

text \<open>Rollup's \<open>OutputAsset | OutputChunk\<close>: \<open>type === 'asset'\<close> is \<open>is_Asset\<close>; an asset
  carries \<open>source\<close>, every other item carries \<open>code\<close>.\<close>

datatype bundleItem =
  Asset (fileName: string) (source: content)
| Chunk (fileName: string) (code: string)

type_synonym outputBundle = "bundleItem object"

text \<open>The fields of Vite's \<open>ResolvedConfig\<close> that the plugin reads (\<open>outDir\<close> is
  \<open>config.build.outDir\<close>), and \<open>options.dir\<close> of Rollup's output options, which may be
  \<open>undefined\<close>.\<close>

record config =
  base :: string
  root :: string
  outDir :: string

record options =
  dir :: "string option"

subsection \<open>The parsed document\<close>

text \<open>
  cheerio's document is a heap of nodes; a node's address is its index in the list, and
  the list is in document order, which is the order of a cheerio selection.  An element
  has its tag name, its \<open>attribs\<close> object and the addresses of its children; text,
  comments and directives are \<open>Other\<close>.
\<close>

type_synonym attribs = "string object"

datatype node =
  Element (tagName: string) (attribs: attribs) (children: "nat list")
| Other string

type_synonym dom = "node list"

subsection \<open>The host\<close>

text \<open>
  What the plugin imports and calls:
  \<^item> \<open>createHash h alg src\<close> is \<open>createHash(alg).update(src).digest()\<close> of \<open>node:crypto\<close>;
  \<^item> \<open>toString h bytes enc\<close> is \<open>Buffer.toString(enc)\<close>;
  \<^item> \<open>resolve h paths\<close> is \<open>path.resolve(...paths)\<close>;
  \<^item> \<open>readFileSync h path\<close> is the file's bytes, \<open>None\<close> when \<open>fs.readFileSync\<close> throws;
  \<^item> \<open>load h\<close> and \<open>html h\<close> are cheerio's parser and serialiser.
\<close>

record host =
  createHash :: "string \<Rightarrow> content \<Rightarrow> byte list"
  toString :: "byte list \<Rightarrow> string \<Rightarrow> string"
  resolve :: "string list \<Rightarrow> string"
  readFileSync :: "string \<Rightarrow> byte list option"
  load :: "content \<Rightarrow> dom"
  html :: "dom \<Rightarrow> string"

datatype error = TypeError

section \<open>calculateIntegrityHashes\<close>

text \<open>Lines 78-79: \<open>attributeName = element.attribs.src ? 'src' : 'href'\<close> (an absent and
  an empty \<open>src\<close> are both falsy) and \<open>resourceUrl = element.attribs[attributeName]\<close>.\<close>

definition attributeName :: "attribs \<Rightarrow> string" where
  "attributeName a =
     (case get_prop a ''src'' of
        Some s \<Rightarrow> if s \<noteq> [] then ''src'' else ''href''
      | None \<Rightarrow> ''href'')"

definition resourceUrl :: "attribs \<Rightarrow> string option" where
  "resourceUrl a = get_prop a (attributeName a)"

text \<open>Lines 81-84.\<close>

definition resourcePath :: "config \<Rightarrow> string \<Rightarrow> string" where
  "resourcePath cfg url =
     (if indexOf url (base cfg) = 0 then substring url (length (base cfg)) else url)"

text \<open>Lines 86-88: the first entry of the registry whose item has this \<open>fileName\<close>.\<close>

definition findItem :: "outputBundle \<Rightarrow> string \<Rightarrow> bundleItem option" where
  "findItem bundle path =
     map_option snd (find (\<lambda>(k, bundleItem). fileName bundleItem = path) (entries bundle))"

text \<open>Lines 100-104: the content of a registry item.\<close>

definition content_of :: "bundleItem \<Rightarrow> content" where
  "content_of t = (if is_Asset t then source t else Str (code t))"

text \<open>Lines 92-98: the read from the output directory.  The \<open>try\<close> covers both
  \<open>resolve\<close> (which throws on an undefined \<open>options.dir\<close>) and the read itself, and the
  \<open>catch\<close> leaves \<open>undefined\<close>.\<close>

definition readFallback :: "host \<Rightarrow> options \<Rightarrow> string \<Rightarrow> content option" where
  "readFallback h opts path =
     (case dir opts of
        None \<Rightarrow> None
      | Some d \<Rightarrow> map_option Buf (readFileSync h (resolve h [d, path])))"

text \<open>Lines 90-105: the content to hash, with the warnings logged on the way.\<close>

definition resolveSource ::
  "host \<Rightarrow> options \<Rightarrow> outputBundle \<Rightarrow> string \<Rightarrow> string list \<times> content option" where
  "resolveSource h opts bundle path =
     (case findItem bundle path of
        None \<Rightarrow> ([''cannot find '' @ path @ '' in output bundle.''], readFallback h opts path)
      | Some t \<Rightarrow> ([], Some (content_of t)))"

text \<open>Lines 107-111.\<close>

definition integrity :: "host \<Rightarrow> content \<Rightarrow> string" where
  "integrity h src = ''sha384-'' @ toString h (createHash h ''sha384'' src) ''base64''"

text \<open>
  The whole function on the \<open>attribs\<close> of one element: the warnings it logs, and either
  the \<open>attribs\<close> it leaves or the \<open>TypeError\<close> it throws when \<open>resourceUrl\<close> is
  \<open>undefined\<close> (\<open>resourceUrl.indexOf\<close> on line 82, before anything is logged or written).
\<close>

definition calculateIntegrityHashes ::
  "host \<Rightarrow> config \<Rightarrow> options \<Rightarrow> outputBundle \<Rightarrow> attribs \<Rightarrow> string list \<times> (error + attribs)" where
  "calculateIntegrityHashes h cfg opts bundle a =
     (case resourceUrl a of
        None \<Rightarrow> ([], Inl TypeError)
      | Some url \<Rightarrow>
          (let (warned, src) = resolveSource h opts bundle (resourcePath cfg url);
               a1 = (if truthy src then set_prop a ''integrity'' (integrity h (the src)) else a);
               a2 = (if get_prop a1 ''crossorigin'' = None
                     then set_prop a1 ''crossorigin'' ''anonymous'' else a1)
           in (warned, Inr a2)))"

section \<open>Rewriting one document\<close>

text \<open>\<open>$(tag).filter('[attr]')\<close>: the addresses of the elements with this tag name that
  carry the attribute, in document order.\<close>

definition selected :: "string \<Rightarrow> string \<Rightarrow> node \<Rightarrow> bool" where
  "selected tag attr nd =
     (case nd of Element n a cs \<Rightarrow> n = tag \<and> get_prop a attr \<noteq> None | Other s \<Rightarrow> False)"

definition select :: "string \<Rightarrow> string \<Rightarrow> dom \<Rightarrow> nat list" where
  "select tag attr d = filter (\<lambda>i. selected tag attr (d ! i)) [0..<length d]"

text \<open>The state of one \<open>htmls.forEach\<close> callback: the document as mutated so far, the
  warnings logged so far, and whether one of the promises given to \<open>Promise.all\<close> has
  been rejected.\<close>

record run =
  doc :: dom
  logged :: "string list"
  rejected :: bool

text \<open>One call of \<open>calculateIntegrityHashes\<close> on the element at an address.  The function
  has no \<open>await\<close>, so each call runs to its end before the next one starts.\<close>

definition visit :: "host \<Rightarrow> config \<Rightarrow> options \<Rightarrow> outputBundle \<Rightarrow> nat \<Rightarrow> run \<Rightarrow> run" where
  "visit h cfg opts bundle i st =
     (case doc st ! i of
        Element n a cs \<Rightarrow>
          (case calculateIntegrityHashes h cfg opts bundle a of
             (w, Inl e) \<Rightarrow> st\<lparr>logged := logged st @ w, rejected := True\<rparr>
           | (w, Inr a') \<Rightarrow> st\<lparr>doc := (doc st)[i := Element n a' cs], logged := logged st @ w\<rparr>)
      | Other s \<Rightarrow> st)"

text \<open>Lines 70-127: scripts first, then stylesheets.  The result is the warnings logged
  and the document to serialise, or the error that rejects \<open>Promise.all\<close>, after which
  line 129 is not reached and nothing is written for this document.\<close>

definition rewrite ::
  "host \<Rightarrow> config \<Rightarrow> options \<Rightarrow> outputBundle \<Rightarrow> dom \<Rightarrow> string list \<times> (error + dom)" where
  "rewrite h cfg opts bundle d =
     (let scripts = select ''script'' ''src'' d;
          stylesheets = select ''link'' ''href'' d;
          st = fold (visit h cfg opts bundle) (scripts @ stylesheets)
                 \<lparr>doc = d, logged = [], rejected = False\<rparr>
      in (logged st, if rejected st then Inl TypeError else Inr (doc st)))"

section \<open>writeBundle\<close>

text \<open>Lines 46-49: the emitted bundle is merged into the plugin's registry.\<close>

definition merge :: "outputBundle \<Rightarrow> outputBundle \<Rightarrow> outputBundle" where
  "merge emitted bundle = fold (\<lambda>(k, v) b. set_prop b k v) (entries emitted) bundle"

text \<open>Lines 51-66: the documents to rewrite, as \<open>(name, source)\<close>.\<close>

definition htmls :: "outputBundle \<Rightarrow> (string \<times> content) list" where
  "htmls bundle =
     List.map_filter
       (\<lambda>filename. case get_prop bundle filename of
                      Some (Asset n s) \<Rightarrow> Some (n, s)
                    | _ \<Rightarrow> None)
       (filter (\<lambda>filename. endsWith filename ''.html'') (keys bundle))"

text \<open>
  What one call of the hook leaves: the registry, the warnings in the order they were
  logged, and the files written, one \<open>(path, text)\<close> for each document whose rewriting was
  not rejected.  \<open>written\<close> lists them by document; the order in time of the writes of
  different documents is not part of the model.
\<close>

record outcome =
  registry :: outputBundle
  warnings :: "string list"
  written :: "(string \<times> string) list"

definition writeBundle :: "host \<Rightarrow> config \<Rightarrow> options \<Rightarrow> outputBundle \<Rightarrow> outputBundle \<Rightarrow> outcome" where
  "writeBundle h cfg opts emitted bundle0 =
     (let bundle = merge emitted bundle0;
          results = map (\<lambda>(name, src). (name, rewrite h cfg opts bundle (load h src)))
                      (htmls bundle)
      in \<lparr>registry = bundle,
          warnings = concat (map (\<lambda>(name, w, r). w) results),
          written = List.map_filter
                      (\<lambda>(name, w, r). case r of
                           Inl e \<Rightarrow> None
                         | Inr d \<Rightarrow> Some (resolve h [root cfg, outDir cfg, name], html h d))
                      results\<rparr>)"

section \<open>Notions used to state the properties\<close>

text \<open>Rollup stores every item of an \<open>OutputBundle\<close> under its \<open>fileName\<close>
  (\<open>{ [fileName: string]: OutputAsset | OutputChunk }\<close>), and the keys of an object are
  distinct.\<close>

definition keyedByFileName :: "outputBundle \<Rightarrow> bool" where
  "keyedByFileName b = list_all (\<lambda>(k, bundleItem). fileName bundleItem = k) b"

definition wellFormed :: "outputBundle \<Rightarrow> bool" where
  "wellFormed b = (distinct (keys b) \<and> keyedByFileName b)"

text \<open>The elements that lines 73-74 select.\<close>

definition eligible :: "node \<Rightarrow> bool" where
  "eligible nd = (selected ''script'' ''src'' nd \<or> selected ''link'' ''href'' nd)"

text \<open>A node as one call of \<open>calculateIntegrityHashes\<close> leaves it, the warnings that call
  logs, and whether it throws.\<close>

definition mutated :: "host \<Rightarrow> config \<Rightarrow> options \<Rightarrow> outputBundle \<Rightarrow> node \<Rightarrow> node" where
  "mutated h cfg opts bundle nd =
     (case nd of
        Element n a cs \<Rightarrow>
          (case calculateIntegrityHashes h cfg opts bundle a of
             (w, Inl e) \<Rightarrow> nd
           | (w, Inr a') \<Rightarrow> Element n a' cs)
      | Other s \<Rightarrow> nd)"

definition warned :: "host \<Rightarrow> config \<Rightarrow> options \<Rightarrow> outputBundle \<Rightarrow> node \<Rightarrow> string list" where
  "warned h cfg opts bundle nd =
     (case nd of
        Element n a cs \<Rightarrow> fst (calculateIntegrityHashes h cfg opts bundle a)
      | Other s \<Rightarrow> [])"

definition throws :: "node \<Rightarrow> bool" where
  "throws nd = (case nd of Element n a cs \<Rightarrow> resourceUrl a = None | Other s \<Rightarrow> False)"

text \<open>The attributes of an element other than the two the plugin writes, in their
  order.\<close>

definition others :: "attribs \<Rightarrow> attribs" where
  "others a = filter (\<lambda>p. fst p \<noteq> ''integrity'' \<and> fst p \<noteq> ''crossorigin'') a"

text \<open>The value of \<open>crossorigin\<close> that lines 113-117 leave.\<close>

definition crossoriginAfter :: "attribs \<Rightarrow> string" where
  "crossoriginAfter a =
     (case get_prop a ''crossorigin'' of None \<Rightarrow> ''anonymous'' | Some v \<Rightarrow> v)"

text \<open>The entries of a registry that the specification calls HTML documents: the key ends with
  \<open>.html\<close> and the item is an asset.\<close>

definition htmlAssets :: "outputBundle \<Rightarrow> (string \<times> bundleItem) list" where
  "htmlAssets b = filter (\<lambda>(k, t). endsWith k ''.html'' \<and> is_Asset t) b"

text \<open>An object that has the property \<open>k\<close>, with the value \<open>v\<close> wherever the list names
  \<open>k\<close>.\<close>

definition settled :: "string \<Rightarrow> 'v \<Rightarrow> 'v object \<Rightarrow> bool" where
  "settled k v x = (k \<in> set (keys x) \<and> list_all (\<lambda>p. fst p \<noteq> k \<or> p = (k, v)) x)"

subsection \<open>Examples\<close>

text \<open>
  A host on which the model can be run.  Its file system holds one empty file,
  \<open>dist/empty.js\<close>; paths are joined with \<open>/\<close>; the digest and its encoding are stand-ins
  (the digest of a buffer is the buffer, of a string the empty buffer; the encoding
  returns its own name); the parser yields a document with one script element whose
  \<open>src\<close> is the text parsed, and the serialiser writes each element as its tag name
  followed by its attributes.
\<close>

definition exampleHost :: host where
  "exampleHost =
     \<lparr>createHash = (\<lambda>alg src. case src of Str s \<Rightarrow> [] | Buf b \<Rightarrow> b),
      toString = (\<lambda>bytes enc. enc),
      resolve = (\<lambda>paths. case paths of [] \<Rightarrow> [] | p # ps \<Rightarrow> p @ concat (map (\<lambda>q. CHR ''/'' # q) ps)),
      readFileSync = (\<lambda>path. if path = ''dist/empty.js'' then Some [] else None),
      load = (\<lambda>src. case src of
                Str s \<Rightarrow> [Element ''script'' [(''src'', s)] []]
              | Buf b \<Rightarrow> []),
      html = (\<lambda>d. concat (map (\<lambda>nd. case nd of
                  Element n a cs \<Rightarrow>
                    ''<'' @ n @ concat (map (\<lambda>(k, v). '' '' @ k @ ''='' @ v) a) @ ''>''
                | Other s \<Rightarrow> s) d))\<rparr>"

definition exampleConfig :: config where
  "exampleConfig = \<lparr>base = ''/'', root = ''/project'', outDir = ''dist''\<rparr>"

definition exampleOptions :: options where
  "exampleOptions = \<lparr>dir = Some ''dist''\<rparr>"

text \<open>A registry, a parsed document, and that document as the plugin rewrites it
  against the registry on the host above.\<close>

definition exampleBundle :: outputBundle where
  "exampleBundle =
     [(''assets/app.js'', Chunk ''assets/app.js'' ''console.log(1)''),
      (''assets/empty.css'', Asset ''assets/empty.css'' (Str [])),
      (''index.html'', Asset ''index.html'' (Str ''/assets/app.js''))]"

definition exampleDocument :: dom where
  "exampleDocument =
     [Element ''head'' [] [1, 2, 3],
      Element ''script'' [(''src'', ''/assets/app.js''), (''crossorigin'', ''use-credentials'')] [],
      Element ''link'' [(''rel'', ''icon''), (''href'', ''/favicon.ico'')] [],
      Element ''link'' [(''rel'', ''stylesheet''), (''href'', ''/assets/empty.css'')] [],
      Element ''script'' [] [5],
      Other ''inline()'']"

definition exampleRewritten :: dom where
  "exampleRewritten =
     [Element ''head'' [] [1, 2, 3],
      Element ''script''
        [(''src'', ''/assets/app.js''), (''crossorigin'', ''use-credentials''),
         (''integrity'', ''sha384-base64'')] [],
      Element ''link''
        [(''rel'', ''icon''), (''href'', ''/favicon.ico''), (''crossorigin'', ''anonymous'')] [],
      Element ''link''
        [(''rel'', ''stylesheet''), (''href'', ''/assets/empty.css''),
         (''crossorigin'', ''anonymous'')] [],
      Element ''script'' [] [5],
      Other ''inline()'']"

text \<open>The bundles of two passes: a legacy pass that emits a script, and a modern pass
  that emits the page referring to it, and a chunk whose name ends with \<open>.html\<close>.\<close>

definition legacyBundle :: outputBundle where
  "legacyBundle = [(''legacy.js'', Chunk ''legacy.js'' ''legacy()'')]"

definition modernBundle :: outputBundle where
  "modernBundle =
     [(''index.html'', Asset ''index.html'' (Str ''/legacy.js'')),
      (''about.html'', Chunk ''about.html'' ''export {}'')]"

section \<open>Strings, objects and the registry\<close>

lemma indexOf_zero_iff: "indexOf s b = 0 \<longleftrightarrow> prefix b s"
proof (cases s)
  case Nil
  then show ?thesis by simp
next
  case (Cons c cs)
  have "take (length b) (c # cs) = b \<longleftrightarrow> prefix b (c # cs)"
    by (metis prefix_def append_eq_conv_conj append_take_drop_id)
  then show ?thesis using Cons by (simp add: Let_def)
qed

lemma resourcePath_prefix:
  "resourcePath cfg url = (if prefix (base cfg) url then drop (length (base cfg)) url else url)"
  by (simp add: resourcePath_def substring_def indexOf_zero_iff)

lemma endsWith_suffix: "endsWith s t \<longleftrightarrow> suffix t s"
proof
  assume "endsWith s t"
  then have "s = take (length s - length t) s @ t"
    by (metis endsWith_def append_take_drop_id)
  then show "suffix t s" by (metis suffixI)
next
  assume "suffix t s"
  then obtain u where "s = u @ t" by (auto simp: suffix_def)
  then show "endsWith s t" by (simp add: endsWith_def)
qed

lemma set_prop_present:
  "k \<in> set (keys obj) \<Longrightarrow> set_prop obj k v = map (\<lambda>p. if fst p = k then (k, v) else p) obj"
  by (simp add: set_prop_def)

lemma set_prop_fresh:
  assumes "k \<notin> set (keys obj)"
  shows "\<exists>xs ys. obj = xs @ ys \<and> set_prop obj k v = xs @ (k, v) # ys"
proof (cases "arrayIndex k")
  case None
  with assms have "obj = obj @ [] \<and> set_prop obj k v = obj @ (k, v) # []"
    by (simp add: set_prop_def)
  then show ?thesis by blast
next
  case (Some n)
  with assms have "obj = takeWhile (before n) obj @ dropWhile (before n) obj \<and>
      set_prop obj k v = takeWhile (before n) obj @ (k, v) # dropWhile (before n) obj"
    by (simp add: set_prop_def)
  then show ?thesis by blast
qed

lemma map_of_replace:
  "map_of (map (\<lambda>p. if fst p = k then (k, v) else p) obj) k' =
     (if k' = k then (if k \<in> fst ` set obj then Some v else None) else map_of obj k')"
  by (induction obj) (auto split: if_splits)

lemma get_set_prop:
  "get_prop (set_prop obj k v) k' = (if k' = k then Some v else get_prop obj k')"
proof (cases "k \<in> set (keys obj)")
  case True
  then show ?thesis
    by (simp add: set_prop_present get_prop_def map_of_replace keys_def)
next
  case False
  from set_prop_fresh [OF False, of v]
  obtain xs ys where o: "obj = xs @ ys" and s: "set_prop obj k v = xs @ (k, v) # ys"
    by blast
  from False o have "map_of xs k = None"
    by (simp add: keys_def map_of_eq_None_iff)
  then show ?thesis
    unfolding get_prop_def s by (auto simp: o map_add_def split: option.splits)
qed

lemma keys_set_prop_present:
  assumes "k \<in> set (keys obj)"
  shows "keys (set_prop obj k v) = keys obj"
proof -
  have "map fst (map (\<lambda>p. if fst p = k then (k, v) else p) obj) = map fst obj"
    by (induction obj) auto
  with assms show ?thesis by (simp add: set_prop_present keys_def)
qed

lemma set_keys_set_prop: "set (keys (set_prop obj k v)) = insert k (set (keys obj))"
proof (cases "k \<in> set (keys obj)")
  case True
  then show ?thesis by (auto simp: keys_set_prop_present)
next
  case False
  from set_prop_fresh [OF False, of v]
  obtain xs ys where o: "obj = xs @ ys" and s: "set_prop obj k v = xs @ (k, v) # ys"
    by blast
  show ?thesis unfolding s keys_def by (auto simp: o)
qed

lemma distinct_keys_set_prop:
  assumes "distinct (keys obj)"
  shows "distinct (keys (set_prop obj k v))"
proof (cases "k \<in> set (keys obj)")
  case True
  with assms show ?thesis by (simp add: keys_set_prop_present)
next
  case False
  from set_prop_fresh [OF False, of v]
  obtain xs ys where o: "obj = xs @ ys" and s: "set_prop obj k v = xs @ (k, v) # ys"
    by blast
  from assms False show ?thesis unfolding s keys_def by (auto simp: o)
qed

lemma filter_set_prop:
  "filter (\<lambda>p. fst p \<noteq> k) (set_prop obj k v) = filter (\<lambda>p. fst p \<noteq> k) obj"
proof (cases "k \<in> set (keys obj)")
  case True
  have "filter (\<lambda>p. fst p \<noteq> k) (map (\<lambda>p. if fst p = k then (k, v) else p) obj)
        = filter (\<lambda>p. fst p \<noteq> k) obj"
    by (induction obj) auto
  with True show ?thesis by (simp add: set_prop_present)
next
  case False
  from set_prop_fresh [OF False, of v]
  obtain xs ys where o: "obj = xs @ ys" and s: "set_prop obj k v = xs @ (k, v) # ys"
    by blast
  show ?thesis unfolding s by (simp add: o)
qed

lemma set_prop_entries:
  assumes "p \<in> set (set_prop obj k v)"
  shows "p = (k, v) \<or> p \<in> set obj"
proof (cases "k \<in> set (keys obj)")
  case True
  with assms have "p \<in> (\<lambda>p. if fst p = k then (k, v) else p) ` set obj"
    by (simp add: set_prop_present)
  then obtain q where "q \<in> set obj" "p = (if fst q = k then (k, v) else q)"
    by blast
  then show ?thesis by (cases "fst q = k") simp_all
next
  case False
  from set_prop_fresh [OF False, of v]
  obtain xs ys where o: "obj = xs @ ys" and s: "set_prop obj k v = xs @ (k, v) # ys"
    by blast
  from assms have "p \<in> set (xs @ (k, v) # ys)" by (simp only: s)
  then show ?thesis by (auto simp: o)
qed

lemma set_prop_triv:
  assumes "distinct (keys obj)" "get_prop obj k = Some v"
  shows "set_prop obj k v = obj"
proof -
  from assms(2) have kin: "k \<in> set (keys obj)"
    by (auto simp: get_prop_def keys_def dest: map_of_SomeD intro: rev_image_eqI)
  have "map (\<lambda>p. if fst p = k then (k, v) else p) obj = obj"
  proof (rule map_idI)
    fix p assume "p \<in> set obj"
    moreover from assms(2) have "(k, v) \<in> set obj"
      by (auto simp: get_prop_def dest: map_of_SomeD)
    ultimately show "(if fst p = k then (k, v) else p) = p"
      using assms(1) eq_key_imp_eq_value [of obj k "snd p" v]
      by (cases p) (auto simp: keys_def)
  qed
  with kin show ?thesis by (simp add: set_prop_present)
qed

lemma findItem_keyed:
  "keyedByFileName b \<Longrightarrow> findItem b p = get_prop b p"
  unfolding findItem_def get_prop_def entries_def keyedByFileName_def
  by (induction b) auto

lemma merge_Nil: "merge [] b = b"
  by (simp add: merge_def entries_def)

lemma merge_Cons: "merge ((k, v) # e) b = merge e (set_prop b k v)"
  by (simp add: merge_def entries_def)

lemma get_merge:
  "get_prop (merge e b) k = (case map_of (rev e) k of Some v \<Rightarrow> Some v | None \<Rightarrow> get_prop b k)"
proof (induction e arbitrary: b)
  case Nil
  then show ?case by (simp add: merge_Nil)
next
  case (Cons x e)
  obtain k' v' where x: "x = (k', v')" by (cases x)
  show ?case
    by (simp add: x merge_Cons Cons.IH get_set_prop map_add_def split: option.splits)
qed

lemma keys_merge: "set (keys (merge e b)) = set (keys e) \<union> set (keys b)"
proof (induction e arbitrary: b)
  case Nil
  then show ?case by (simp add: merge_Nil keys_def)
next
  case (Cons x e)
  obtain k' v' where x: "x = (k', v')" by (cases x)
  have "set (keys (x # e)) = insert k' (set (keys e))"
    by (simp add: x keys_def)
  then show ?case
    by (simp add: x merge_Cons Cons.IH set_keys_set_prop)
qed

lemma distinct_merge: "distinct (keys b) \<Longrightarrow> distinct (keys (merge e b))"
proof (induction e arbitrary: b)
  case Nil
  then show ?case by (simp add: merge_Nil)
next
  case (Cons x e)
  obtain k' v' where x: "x = (k', v')" by (cases x)
  from Cons.prems show ?case
    by (simp add: x merge_Cons Cons.IH distinct_keys_set_prop)
qed

lemma keyed_set_prop:
  assumes "keyedByFileName b" "fileName v = k"
  shows "keyedByFileName (set_prop b k v)"
proof -
  have "\<forall>p \<in> set (set_prop b k v). fileName (snd p) = fst p"
  proof
    fix p assume "p \<in> set (set_prop b k v)"
    then have "p = (k, v) \<or> p \<in> set b" by (rule set_prop_entries)
    with assms show "fileName (snd p) = fst p"
      by (auto simp: keyedByFileName_def list_all_iff)
  qed
  then show ?thesis by (auto simp: keyedByFileName_def list_all_iff)
qed

lemma keyed_merge:
  "keyedByFileName b \<Longrightarrow> keyedByFileName e \<Longrightarrow> keyedByFileName (merge e b)"
proof (induction e arbitrary: b)
  case Nil
  then show ?case by (simp add: merge_Nil)
next
  case (Cons x e)
  obtain k' v' where x: "x = (k', v')" by (cases x)
  from Cons.prems have "fileName v' = k'" "keyedByFileName e"
    by (simp_all add: x keyedByFileName_def)
  with Cons.prems(1) show ?case
    by (simp add: x merge_Cons Cons.IH keyed_set_prop)
qed

lemma wellFormed_merge:
  "wellFormed b \<Longrightarrow> keyedByFileName e \<Longrightarrow> wellFormed (merge e b)"
  by (simp add: wellFormed_def distinct_merge keyed_merge)

lemma merge_absorb:
  assumes "distinct (keys b)" "\<forall>(k, v) \<in> set e. get_prop b k = Some v"
  shows "merge e b = b"
  using assms(2)
proof (induction e)
  case Nil
  then show ?case by (simp add: merge_Nil)
next
  case (Cons x e)
  obtain k' v' where x: "x = (k', v')" by (cases x)
  from Cons.prems have "get_prop b k' = Some v'" by (simp add: x)
  with assms(1) have "set_prop b k' v' = b" by (rule set_prop_triv)
  with Cons show ?case by (simp add: x merge_Cons)
qed

lemma merge_idem:
  assumes "distinct (keys b)" "distinct (keys e)"
  shows "merge e (merge e b) = merge e b"
proof (rule merge_absorb)
  show "distinct (keys (merge e b))" using assms(1) by (rule distinct_merge)
  show "\<forall>(k, v) \<in> set e. get_prop (merge e b) k = Some v"
  proof (clarify)
    fix k v assume "(k, v) \<in> set e"
    with assms(2) have "map_of (rev e) k = Some v"
      by (intro map_of_is_SomeI) (simp_all add: keys_def rev_map [symmetric])
    then show "get_prop (merge e b) k = Some v" by (simp add: get_merge)
  qed
qed

lemma calc_throws:
  "resourceUrl a = None \<Longrightarrow> calculateIntegrityHashes h cfg opts b a = ([], Inl TypeError)"
  by (simp add: calculateIntegrityHashes_def)

lemma calc_returns:
  assumes "resourceUrl a = Some url"
  shows "calculateIntegrityHashes h cfg opts b a =
    (fst (resolveSource h opts b (resourcePath cfg url)),
     Inr (let src = snd (resolveSource h opts b (resourcePath cfg url));
              a1 = (if truthy src then set_prop a ''integrity'' (integrity h (the src)) else a)
          in if get_prop a1 ''crossorigin'' = None
             then set_prop a1 ''crossorigin'' ''anonymous'' else a1))"
  using assms by (simp add: calculateIntegrityHashes_def Let_def split: prod.splits)

lemma visit_doc:
  "doc (visit h cfg opts b i st) = (doc st)[i := mutated h cfg opts b (doc st ! i)]"
proof (cases "doc st ! i")
  case (Element n a cs)
  have keep: "(doc st)[i := Element n a cs] = doc st"
    using list_update_id [of "doc st" i] by (simp only: Element)
  obtain w r where c: "calculateIntegrityHashes h cfg opts b a = (w, r)"
    by (cases "calculateIntegrityHashes h cfg opts b a")
  show ?thesis
    by (cases r) (simp_all add: visit_def mutated_def Element c keep)
next
  case (Other s)
  have keep: "(doc st)[i := Other s] = doc st"
    using list_update_id [of "doc st" i] by (simp only: Other)
  show ?thesis
    by (simp add: visit_def mutated_def Other keep)
qed

lemma visit_logged:
  "logged (visit h cfg opts b i st) = logged st @ warned h cfg opts b (doc st ! i)"
  by (auto simp: visit_def warned_def split: node.splits prod.splits sum.splits)

lemma visit_rejected:
  "rejected (visit h cfg opts b i st) = (rejected st \<or> throws (doc st ! i))"
proof (cases "doc st ! i")
  case (Element n a cs)
  show ?thesis
  proof (cases "resourceUrl a")
    case None
    with Element show ?thesis
      by (simp add: visit_def throws_def calc_throws)
  next
    case (Some url)
    with Element show ?thesis
      by (simp add: visit_def throws_def calc_returns)
  qed
next
  case (Other s)
  then show ?thesis by (simp add: visit_def throws_def)
qed

lemma fold_visit:
  assumes "distinct is" "\<forall>i \<in> set is. i < length (doc st)"
  shows "length (doc (fold (visit h cfg opts b) is st)) = length (doc st)
    \<and> (\<forall>j < length (doc st). doc (fold (visit h cfg opts b) is st) ! j =
          (if j \<in> set is then mutated h cfg opts b (doc st ! j) else doc st ! j))
    \<and> logged (fold (visit h cfg opts b) is st) =
          logged st @ concat (map (\<lambda>i. warned h cfg opts b (doc st ! i)) is)
    \<and> rejected (fold (visit h cfg opts b) is st) =
          (rejected st \<or> (\<exists>i \<in> set is. throws (doc st ! i)))"
  using assms
proof (induction "is" arbitrary: st)
  case Nil
  then show ?case by simp
next
  case (Cons i "is")
  let ?st = "visit h cfg opts b i st"
  have len: "length (doc ?st) = length (doc st)" by (simp add: visit_doc)
  have same: "doc ?st ! j = doc st ! j" if "j \<noteq> i" for j
    using that by (simp add: visit_doc)
  have at: "doc ?st ! i = mutated h cfg opts b (doc st ! i)"
    using Cons.prems(2) by (simp add: visit_doc)
  from Cons.prems have d: "distinct is" and ni: "i \<notin> set is"
    and r: "\<forall>j \<in> set is. j < length (doc ?st)"
    by (simp_all add: len)
  note IH = Cons.IH [OF d r]
  have w: "map (\<lambda>j. warned h cfg opts b (doc ?st ! j)) is = map (\<lambda>j. warned h cfg opts b (doc st ! j)) is"
  proof (rule map_cong [OF refl])
    fix j assume "j \<in> set is"
    with ni have "j \<noteq> i" by auto
    then show "warned h cfg opts b (doc ?st ! j) = warned h cfg opts b (doc st ! j)"
      by (simp add: same)
  qed
  have t: "(\<exists>j \<in> set is. throws (doc ?st ! j)) = (\<exists>j \<in> set is. throws (doc st ! j))"
    using ni by (metis same)
  from IH have L: "length (doc (fold (visit h cfg opts b) is ?st)) = length (doc st)"
    and N: "\<And>j. j < length (doc st) \<Longrightarrow> doc (fold (visit h cfg opts b) is ?st) ! j =
          (if j \<in> set is then mutated h cfg opts b (doc ?st ! j) else doc ?st ! j)"
    and G: "logged (fold (visit h cfg opts b) is ?st) =
          logged ?st @ concat (map (\<lambda>i. warned h cfg opts b (doc ?st ! i)) is)"
    and R: "rejected (fold (visit h cfg opts b) is ?st) =
          (rejected ?st \<or> (\<exists>i \<in> set is. throws (doc ?st ! i)))"
    by (simp_all add: len)
  have N': "doc (fold (visit h cfg opts b) (i # is) st) ! j =
          (if j \<in> set (i # is) then mutated h cfg opts b (doc st ! j) else doc st ! j)"
    if j: "j < length (doc st)" for j
  proof (cases "j = i")
    case True
    with ni N [OF j] at show ?thesis by simp
  next
    case False
    with N [OF j] show ?thesis by (simp add: same)
  qed
  have G': "logged (fold (visit h cfg opts b) (i # is) st) =
          logged st @ concat (map (\<lambda>i. warned h cfg opts b (doc st ! i)) (i # is))"
    using G by (simp add: w visit_logged)
  have R': "rejected (fold (visit h cfg opts b) (i # is) st) =
          (rejected st \<or> (\<exists>i \<in> set (i # is). throws (doc st ! i)))"
    using R by (simp add: t visit_rejected)
  from L N' G' R' show ?case by simp
qed

lemma set_select: "set (select tag attr d) = {i. i < length d \<and> selected tag attr (d ! i)}"
  by (auto simp: select_def)

lemma distinct_select: "distinct (select tag attr d)"
  by (simp add: select_def)

lemma script_not_link: "selected ''script'' a1 nd \<Longrightarrow> \<not> selected ''link'' a2 nd"
  by (auto simp: selected_def split: node.splits)

lemma set_visited:
  "set (select ''script'' ''src'' d @ select ''link'' ''href'' d) = {i. i < length d \<and> eligible (d ! i)}"
  by (auto simp: set_select eligible_def)

lemma distinct_visited:
  "distinct (select ''script'' ''src'' d @ select ''link'' ''href'' d)"
  using script_not_link by (auto simp: distinct_select set_select)

lemma rewrite_eq:
  "rewrite h cfg opts b d =
     (concat (map (\<lambda>i. warned h cfg opts b (d ! i))
                (select ''script'' ''src'' d @ select ''link'' ''href'' d)),
      if (\<exists>nd \<in> set d. eligible nd \<and> throws nd) then Inl TypeError
      else Inr (map (\<lambda>nd. if eligible nd then mutated h cfg opts b nd else nd) d))"
proof -
  let ?is = "select ''script'' ''src'' d @ select ''link'' ''href'' d"
  let ?init = "\<lparr>doc = d, logged = [], rejected = False\<rparr>"
  let ?st = "fold (visit h cfg opts b) ?is ?init"
  have "\<forall>i \<in> set ?is. i < length (doc ?init)"
    unfolding set_visited by simp
  from fold_visit [OF distinct_visited this, of h cfg opts b]
  have L: "length (doc ?st) = length d"
    and N: "\<And>j. j < length d \<Longrightarrow> doc ?st ! j =
          (if j \<in> set ?is then mutated h cfg opts b (d ! j) else d ! j)"
    and G: "logged ?st = concat (map (\<lambda>i. warned h cfg opts b (d ! i)) ?is)"
    and R: "rejected ?st = (\<exists>i \<in> set ?is. throws (d ! i))"
    by (simp_all del: set_append fold_append)
  have D: "doc ?st = map (\<lambda>nd. if eligible nd then mutated h cfg opts b nd else nd) d"
  proof (rule nth_equalityI)
    show "length (doc ?st) = length (map (\<lambda>nd. if eligible nd then mutated h cfg opts b nd else nd) d)"
      by (simp add: L del: fold_append)
    fix j assume "j < length (doc ?st)"
    then have j: "j < length d" by (simp add: L del: fold_append)
    then show "doc ?st ! j = map (\<lambda>nd. if eligible nd then mutated h cfg opts b nd else nd) d ! j"
      by (simp add: N set_visited del: set_append fold_append)
  qed
  have R': "rejected ?st = (\<exists>nd \<in> set d. eligible nd \<and> throws nd)"
    unfolding R set_visited by (auto simp: in_set_conv_nth intro: nth_mem)
  show ?thesis
    unfolding rewrite_def Let_def by (simp only: G D R')
qed

section \<open>One element, one document\<close>

lemma others_set_prop:
  assumes "k = ''integrity'' \<or> k = ''crossorigin''"
  shows "others (set_prop a k v) = others a"
proof -
  have split: "others x = filter (\<lambda>p. fst p \<noteq> ''integrity'' \<and> fst p \<noteq> ''crossorigin'')
                  (filter (\<lambda>p. fst p \<noteq> k) x)" for x :: attribs
    using assms by (auto simp: others_def intro: filter_cong)
  show ?thesis
    by (simp only: split [of "set_prop a k v"] split [of a] filter_set_prop)
qed

lemma get_others:
  "k \<noteq> ''integrity'' \<Longrightarrow> k \<noteq> ''crossorigin'' \<Longrightarrow> get_prop (others a) k = get_prop a k"
  unfolding others_def get_prop_def by (induction a) auto

lemma resourceUrl_cases:
  "resourceUrl a = Some url \<longleftrightarrow>
     (get_prop a ''src'' = Some url \<and> url \<noteq> []) \<or>
     ((get_prop a ''src'' = None \<or> get_prop a ''src'' = Some []) \<and> get_prop a ''href'' = Some url)"
  by (auto simp: resourceUrl_def attributeName_def split: option.splits)

lemma mutated_Element:
  assumes "resourceUrl a = Some url"
    and "resolveSource h opts b (resourcePath cfg url) = (w, src)"
  shows "\<exists>a'. mutated h cfg opts b (Element n a cs) = Element n a' cs
      \<and> get_prop a' ''integrity'' =
          (if truthy src then Some (integrity h (the src)) else get_prop a ''integrity'')
      \<and> get_prop a' ''crossorigin'' = Some (crossoriginAfter a)
      \<and> others a' = others a
      \<and> get_prop a' ''src'' = get_prop a ''src''
      \<and> get_prop a' ''href'' = get_prop a ''href''
      \<and> warned h cfg opts b (Element n a cs) = w"
proof -
  define a1 where "a1 = (if truthy src then set_prop a ''integrity'' (integrity h (the src)) else a)"
  define a2 where "a2 = (if get_prop a1 ''crossorigin'' = None
                         then set_prop a1 ''crossorigin'' ''anonymous'' else a1)"
  have c: "calculateIntegrityHashes h cfg opts b a = (w, Inr a2)"
    using assms by (simp add: calc_returns a1_def a2_def Let_def)
  have i1: "get_prop a1 ''integrity'' =
      (if truthy src then Some (integrity h (the src)) else get_prop a ''integrity'')"
    and c1: "get_prop a1 ''crossorigin'' = get_prop a ''crossorigin''"
    and o1: "others a1 = others a"
    and s1: "get_prop a1 ''src'' = get_prop a ''src''"
    and h1: "get_prop a1 ''href'' = get_prop a ''href''"
    by (simp_all add: a1_def get_set_prop others_set_prop)
  have "get_prop a2 ''integrity'' = get_prop a1 ''integrity''"
    and "get_prop a2 ''crossorigin'' = Some (crossoriginAfter a)"
    and "others a2 = others a1"
    and "get_prop a2 ''src'' = get_prop a1 ''src''"
    and "get_prop a2 ''href'' = get_prop a1 ''href''"
    by (auto simp: a2_def c1 get_set_prop others_set_prop crossoriginAfter_def)
  with i1 o1 s1 h1 c show ?thesis
    by (simp add: mutated_def warned_def)
qed

lemma rewrite_Inr:
  assumes "rewrite h cfg opts b d = (w, Inr d')"
  shows "d' = map (\<lambda>nd. if eligible nd then mutated h cfg opts b nd else nd) d"
    and "\<forall>nd \<in> set d. eligible nd \<longrightarrow> \<not> throws nd"
    and "w = concat (map (\<lambda>i. warned h cfg opts b (d ! i))
                (select ''script'' ''src'' d @ select ''link'' ''href'' d))"
  using assms unfolding rewrite_eq by (auto split: if_splits)

lemma rewrite_returns:
  assumes "\<forall>nd \<in> set d. eligible nd \<longrightarrow> \<not> throws nd"
  shows "rewrite h cfg opts b d =
     (concat (map (\<lambda>i. warned h cfg opts b (d ! i))
                (select ''script'' ''src'' d @ select ''link'' ''href'' d)),
      Inr (map (\<lambda>nd. if eligible nd then mutated h cfg opts b nd else nd) d))"
  using assms unfolding rewrite_eq by auto

lemma eligible_Element:
  "eligible (Element n a cs) \<longleftrightarrow>
     (n = ''script'' \<and> get_prop a ''src'' \<noteq> None) \<or> (n = ''link'' \<and> get_prop a ''href'' \<noteq> None)"
  by (simp add: eligible_def selected_def)

lemma set_concat_map: "j \<in> set js \<Longrightarrow> set (f j) \<subseteq> set (concat (map f js))"
  by auto

lemma rewritten_element:
  assumes rw: "rewrite h cfg opts b d = (w, Inr d')"
    and i: "i < length d"
    and el: "d ! i = Element n a cs"
    and eli: "eligible (d ! i)"
  shows "\<exists>url w1 src a'.
      resourceUrl a = Some url
    \<and> resolveSource h opts b (resourcePath cfg url) = (w1, src)
    \<and> set w1 \<subseteq> set w
    \<and> d' ! i = Element n a' cs
    \<and> get_prop a' ''integrity'' =
          (if truthy src then Some (integrity h (the src)) else get_prop a ''integrity'')
    \<and> get_prop a' ''crossorigin'' = Some (crossoriginAfter a)
    \<and> others a' = others a"
proof -
  from i have mem: "d ! i \<in> set d" by simp
  with rewrite_Inr(2) [OF rw] eli have "\<not> throws (d ! i)" by blast
  then obtain url where url: "resourceUrl a = Some url"
    by (auto simp: throws_def el)
  obtain w1 src where rs: "resolveSource h opts b (resourcePath cfg url) = (w1, src)"
    by (cases "resolveSource h opts b (resourcePath cfg url)")
  from mutated_Element [OF url rs, of n cs]
  obtain a' where m: "mutated h cfg opts b (Element n a cs) = Element n a' cs"
    and ig: "get_prop a' ''integrity'' =
          (if truthy src then Some (integrity h (the src)) else get_prop a ''integrity'')"
    and co: "get_prop a' ''crossorigin'' = Some (crossoriginAfter a)"
    and ot: "others a' = others a"
    and wn: "warned h cfg opts b (Element n a cs) = w1"
    by blast
  have nth: "d' ! i = Element n a' cs"
    using i eli by (simp add: rewrite_Inr(1) [OF rw] el m)
  have "i \<in> set (select ''script'' ''src'' d @ select ''link'' ''href'' d)"
    using i eli by (simp add: set_visited del: set_append)
  then have "set (warned h cfg opts b (d ! i)) \<subseteq> set w"
    unfolding rewrite_Inr(3) [OF rw] by (rule set_concat_map)
  then have sub: "set w1 \<subseteq> set w" by (simp add: el wn)
  from url rs sub nth ig co ot show ?thesis by blast
qed

lemma settled_set_prop: "settled k v (set_prop x k v)"
proof (cases "k \<in> set (keys x)")
  case True
  then have "k \<in> set (keys (set_prop x k v))" by (simp add: set_keys_set_prop)
  moreover have "list_all (\<lambda>p. fst p \<noteq> k \<or> p = (k, v)) (map (\<lambda>p. if fst p = k then (k, v) else p) x)"
    by (induction x) auto
  ultimately show ?thesis using True by (simp add: settled_def set_prop_present)
next
  case False
  from set_prop_fresh [OF False, of v]
  obtain xs ys where o: "x = xs @ ys" and s: "set_prop x k v = xs @ (k, v) # ys"
    by blast
  from False have "list_all (\<lambda>p. fst p \<noteq> k) x"
    by (auto simp: keys_def list_all_iff)
  then have "list_all (\<lambda>p. fst p \<noteq> k \<or> p = (k, v)) (xs @ (k, v) # ys)"
    by (auto simp: o list_all_iff)
  then show ?thesis
    by (simp add: settled_def s keys_def)
qed

lemma settled_set_prop_other:
  assumes "k' \<noteq> k" "settled k v x"
  shows "settled k v (set_prop x k' v')"
proof -
  from assms(2) have "k \<in> set (keys (set_prop x k' v'))"
    by (simp add: settled_def set_keys_set_prop)
  moreover have "\<forall>p \<in> set (set_prop x k' v'). fst p \<noteq> k \<or> p = (k, v)"
  proof
    fix p assume "p \<in> set (set_prop x k' v')"
    then have "p = (k', v') \<or> p \<in> set x" by (rule set_prop_entries)
    with assms show "fst p \<noteq> k \<or> p = (k, v)"
      by (auto simp: settled_def list_all_iff)
  qed
  ultimately show ?thesis by (simp add: settled_def list_all_iff)
qed

lemma set_prop_settled:
  assumes "settled k v x"
  shows "set_prop x k v = x"
proof -
  have "map (\<lambda>p. if fst p = k then (k, v) else p) x = x"
  proof (rule map_idI)
    fix p assume "p \<in> set x"
    with assms show "(if fst p = k then (k, v) else p) = p"
      by (auto simp: settled_def list_all_iff)
  qed
  with assms show ?thesis by (simp add: settled_def set_prop_present)
qed

lemma calc_fixpoint:
  assumes "calculateIntegrityHashes h cfg opts b a = (w, Inr a')"
  shows "calculateIntegrityHashes h cfg opts b a' = (w, Inr a')"
proof -
  from assms obtain url where url: "resourceUrl a = Some url"
    by (cases "resourceUrl a") (simp_all add: calc_throws)
  define src where "src = snd (resolveSource h opts b (resourcePath cfg url))"
  define v where "v = integrity h (the src)"
  define a1 where "a1 = (if truthy src then set_prop a ''integrity'' v else a)"
  note c = assms [unfolded calc_returns [OF url] prod.inject sum.inject Let_def]
  have w: "w = fst (resolveSource h opts b (resourcePath cfg url))"
    by (rule c [THEN conjunct1, symmetric])
  have a': "a' = (if get_prop a1 ''crossorigin'' = None
                   then set_prop a1 ''crossorigin'' ''anonymous'' else a1)"
    unfolding a1_def v_def src_def by (rule c [THEN conjunct2, symmetric])
  have s1: "get_prop a1 ''src'' = get_prop a ''src''"
    and h1: "get_prop a1 ''href'' = get_prop a ''href''"
    by (simp_all add: a1_def get_set_prop)
  have "get_prop a' ''src'' = get_prop a ''src''" "get_prop a' ''href'' = get_prop a ''href''"
    by (simp_all add: a' s1 h1 get_set_prop)
  then have url': "resourceUrl a' = Some url"
    using url by (simp add: resourceUrl_cases)
  have co: "get_prop a' ''crossorigin'' \<noteq> None"
    by (auto simp: a' get_set_prop)
  have ig: "truthy src \<Longrightarrow> set_prop a' ''integrity'' v = a'"
  proof -
    assume "truthy src"
    then have "settled ''integrity'' v a1"
      by (simp add: a1_def settled_set_prop)
    then have "settled ''integrity'' v a'"
      by (simp add: a' settled_set_prop_other)
    then show ?thesis by (rule set_prop_settled)
  qed
  from co have co': "(get_prop a' ''crossorigin'' = None) = False" by simp
  show ?thesis
    by (cases "truthy src")
      (simp_all add: calc_returns [OF url'] Let_def src_def [symmetric] v_def [symmetric]
         w co' ig)
qed

lemma mutated_fixpoint:
  assumes "\<not> throws nd"
  shows "mutated h cfg opts b (mutated h cfg opts b nd) = mutated h cfg opts b nd"
    and "warned h cfg opts b (mutated h cfg opts b nd) = warned h cfg opts b nd"
    and "eligible (mutated h cfg opts b nd) = eligible nd"
    and "selected ''script'' ''src'' (mutated h cfg opts b nd) = selected ''script'' ''src'' nd"
    and "selected ''link'' ''href'' (mutated h cfg opts b nd) = selected ''link'' ''href'' nd"
    and "\<not> throws (mutated h cfg opts b nd)"
proof -
  have "mutated h cfg opts b (mutated h cfg opts b nd) = mutated h cfg opts b nd
    \<and> warned h cfg opts b (mutated h cfg opts b nd) = warned h cfg opts b nd
    \<and> selected ''script'' ''src'' (mutated h cfg opts b nd) = selected ''script'' ''src'' nd
    \<and> selected ''link'' ''href'' (mutated h cfg opts b nd) = selected ''link'' ''href'' nd
    \<and> \<not> throws (mutated h cfg opts b nd)"
  proof (cases nd)
    case (Other s)
    then show ?thesis by (simp add: mutated_def warned_def throws_def)
  next
    case (Element n a cs)
    with assms obtain url where url: "resourceUrl a = Some url"
      by (auto simp: throws_def)
    obtain w src where rs: "resolveSource h opts b (resourcePath cfg url) = (w, src)"
      by (cases "resolveSource h opts b (resourcePath cfg url)")
    from mutated_Element [OF url rs, of n cs]
    obtain a' where m: "mutated h cfg opts b (Element n a cs) = Element n a' cs"
      and s: "get_prop a' ''src'' = get_prop a ''src''"
      and hr: "get_prop a' ''href'' = get_prop a ''href''"
      and wn: "warned h cfg opts b (Element n a cs) = w"
      by blast
    have c: "calculateIntegrityHashes h cfg opts b a = (w, Inr a')"
      using m wn calc_returns [OF url, of h cfg opts b] by (simp add: mutated_def warned_def)
    from calc_fixpoint [OF c]
    have c': "calculateIntegrityHashes h cfg opts b a' = (w, Inr a')" .
    have url': "resourceUrl a' = Some url"
      using url by (simp add: resourceUrl_cases s hr)
    have "mutated h cfg opts b (Element n a' cs) = Element n a' cs"
      and "warned h cfg opts b (Element n a' cs) = w"
      by (simp_all add: mutated_def warned_def c')
    then show ?thesis
      by (simp add: Element m wn throws_def selected_def url' s hr)
  qed
  then show "mutated h cfg opts b (mutated h cfg opts b nd) = mutated h cfg opts b nd"
    and "warned h cfg opts b (mutated h cfg opts b nd) = warned h cfg opts b nd"
    and "selected ''script'' ''src'' (mutated h cfg opts b nd) = selected ''script'' ''src'' nd"
    and "selected ''link'' ''href'' (mutated h cfg opts b nd) = selected ''link'' ''href'' nd"
    and "\<not> throws (mutated h cfg opts b nd)"
    by simp_all
  then show "eligible (mutated h cfg opts b nd) = eligible nd"
    by (simp add: eligible_def)
qed

lemma select_map:
  assumes "\<forall>nd \<in> set d. selected tag attr (g nd) = selected tag attr nd"
  shows "select tag attr (map g d) = select tag attr d"
proof -
  have "filter (\<lambda>i. selected tag attr (map g d ! i)) [0..<length d] =
        filter (\<lambda>i. selected tag attr (d ! i)) [0..<length d]"
    using assms by (intro filter_cong refl) simp
  then show ?thesis by (simp add: select_def)
qed

lemma rewrite_fixpoint:
  assumes "rewrite h cfg opts b d = (w, Inr d')"
  shows "rewrite h cfg opts b d' = (w, Inr d')"
proof -
  define g where "g = (\<lambda>nd. if eligible nd then mutated h cfg opts b nd else nd)"
  note r = rewrite_Inr [OF assms]
  have ok: "\<not> throws nd" if "nd \<in> set d" and "eligible nd" for nd
    using r(2) that by blast
  have gg: "g (g nd) = g nd" and ge: "eligible (g nd) = eligible nd"
    and gt: "eligible nd \<Longrightarrow> \<not> throws (g nd)"
    and gs: "selected ''script'' ''src'' (g nd) = selected ''script'' ''src'' nd"
    and gl: "selected ''link'' ''href'' (g nd) = selected ''link'' ''href'' nd"
    and gw: "warned h cfg opts b (g nd) = warned h cfg opts b nd"
    if "nd \<in> set d" for nd
    using ok [OF that] by (simp_all add: g_def mutated_fixpoint)
  have d': "d' = map g d" unfolding g_def by (rule r(1))
  have ok': "\<not> (\<exists>nd \<in> set d'. eligible nd \<and> throws nd)"
    unfolding d' using ge gt by auto
  have idem: "map g d' = d'"
    unfolding d' using gg by simp
  have s1: "select ''script'' ''src'' d' = select ''script'' ''src'' d"
    unfolding d' using gs by (intro select_map) simp
  have s2: "select ''link'' ''href'' d' = select ''link'' ''href'' d"
    unfolding d' using gl by (intro select_map) simp
  have wn: "map (\<lambda>i. warned h cfg opts b (d' ! i)) js = map (\<lambda>i. warned h cfg opts b (d ! i)) js"
    if "set js \<subseteq> {i. i < length d}" for js
    using that gw unfolding d' by (intro map_cong refl) auto
  have "set (select ''script'' ''src'' d @ select ''link'' ''href'' d) \<subseteq> {i. i < length d}"
    unfolding set_visited by auto
  note wn' = wn [OF this]
  show ?thesis
    unfolding rewrite_eq [of h cfg opts b d'] s1 s2 wn' r(3) [symmetric]
    using ok' idem by (simp add: g_def)
qed

section \<open>writeBundle as a whole\<close>

lemma get_prop_mem:
  "distinct (keys b) \<Longrightarrow> (k, v) \<in> set b \<longleftrightarrow> get_prop b k = Some v"
  by (auto simp: get_prop_def keys_def dest: map_of_SomeD)

lemma map_of_rev_distinct:
  assumes "distinct (map fst xs)"
  shows "map_of (rev xs) = map_of xs"
proof
  fix k
  show "map_of (rev xs) k = map_of xs k"
  proof (cases "map_of xs k")
    case None
    then have "k \<notin> fst ` set xs" by (simp add: map_of_eq_None_iff)
    then have "map_of (rev xs) k = None" by (simp add: map_of_eq_None_iff)
    with None show ?thesis by simp
  next
    case (Some v)
    then have "(k, v) \<in> set (rev xs)" by (auto dest: map_of_SomeD)
    moreover from assms have "distinct (map fst (rev xs))"
      by (simp add: rev_map [symmetric])
    ultimately have "map_of (rev xs) k = Some v" by (rule map_of_is_SomeI [rotated])
    with Some show ?thesis by simp
  qed
qed

lemma get_merge_distinct:
  assumes "distinct (keys e)"
  shows "get_prop (merge e b) k =
    (case get_prop e k of Some v \<Rightarrow> Some v | None \<Rightarrow> get_prop b k)"
proof -
  from assms have "map_of (rev e) = map_of e"
    by (simp add: map_of_rev_distinct keys_def)
  then have "map_of (rev e) k = get_prop e k" by (simp add: get_prop_def)
  then show ?thesis by (simp only: get_merge)
qed

lemma htmls_aux:
  assumes "\<forall>(k, v) \<in> set xs. get_prop b k = Some v"
  shows "List.map_filter
       (\<lambda>filename. case get_prop b filename of
                      Some (Asset n s) \<Rightarrow> Some (n, s)
                    | _ \<Rightarrow> None)
       (filter (\<lambda>filename. endsWith filename ''.html'') (map fst xs))
     = map (\<lambda>(k, t). (fileName t, source t))
         (filter (\<lambda>(k, t). endsWith k ''.html'' \<and> is_Asset t) xs)"
  using assms
proof (induction xs)
  case Nil
  then show ?case by simp
next
  case (Cons x xs)
  obtain k v where x: "x = (k, v)" by (cases x)
  from Cons.prems have g: "get_prop b k = Some v" by (simp add: x)
  from Cons have IH: "List.map_filter
       (\<lambda>filename. case get_prop b filename of
                      Some (Asset n s) \<Rightarrow> Some (n, s)
                    | _ \<Rightarrow> None)
       (filter (\<lambda>filename. endsWith filename ''.html'') (map fst xs))
     = map (\<lambda>(k, t). (fileName t, source t))
         (filter (\<lambda>(k, t). endsWith k ''.html'' \<and> is_Asset t) xs)"
    by simp
  show ?case
    by (cases v) (simp_all add: x g IH)
qed

lemma htmls_eq:
  assumes "distinct (keys b)"
  shows "htmls b = map (\<lambda>(k, t). (fileName t, source t))
                     (filter (\<lambda>(k, t). endsWith k ''.html'' \<and> is_Asset t) b)"
proof -
  from assms have "\<forall>(k, v) \<in> set b. get_prop b k = Some v"
    by (auto simp: get_prop_mem)
  from htmls_aux [OF this] show ?thesis
    by (simp add: htmls_def keys_def)
qed

lemma registry_writeBundle: "registry (writeBundle h cfg opts e b0) = merge e b0"
  by (simp add: writeBundle_def Let_def)

lemma map_filter_results:
  "List.map_filter
     (\<lambda>(name, w, r). case r of Inl e \<Rightarrow> None | Inr d \<Rightarrow> Some (P name, H d))
     (map (\<lambda>(name, src). (name, R src)) xs)
   = List.map_filter
       (\<lambda>(name, src). case R src of (w, Inl x) \<Rightarrow> None | (w, Inr d') \<Rightarrow> Some (P name, H d'))
       xs"
  by (induction xs) (auto split: prod.splits sum.splits)

lemma written_writeBundle:
  "written (writeBundle h cfg opts e b0) =
     List.map_filter
       (\<lambda>(name, src). case rewrite h cfg opts (merge e b0) (load h src) of
            (w, Inl x) \<Rightarrow> None
          | (w, Inr d') \<Rightarrow> Some (resolve h [root cfg, outDir cfg, name], html h d'))
       (htmls (merge e b0))"
  by (simp add: writeBundle_def Let_def map_filter_results)

lemma concat_map_results:
  "concat (map (\<lambda>(name, w, r). w) (map (\<lambda>(name, src). (name, R src)) xs))
   = concat (map (\<lambda>(name, src). fst (R src)) xs)"
  by (induction xs) (auto split: prod.splits)

lemma warnings_writeBundle:
  "warnings (writeBundle h cfg opts e b0) =
     concat (map (\<lambda>(name, src). fst (rewrite h cfg opts (merge e b0) (load h src)))
               (htmls (merge e b0)))"
  by (simp add: writeBundle_def Let_def concat_map_results del: map_map)

lemma concat_map_docs:
  "concat (map (\<lambda>(name, src). F src) (map (\<lambda>(k, t). (fileName t, source t)) xs))
   = concat (map (\<lambda>(k, t). F (source t)) xs)"
  by (induction xs) auto

lemma map_filter_docs:
  "List.map_filter (\<lambda>(name, src). G name src) (map (\<lambda>(k, t). (fileName t, source t)) xs)
   = List.map_filter (\<lambda>(k, t). G (fileName t) (source t)) xs"
  by (induction xs) (auto split: option.splits)

lemma map_filter_mem:
  "x \<in> set xs \<Longrightarrow> f x = Some y \<Longrightarrow> y \<in> set (List.map_filter f xs)"
  by (force simp: List.map_filter_def)

lemma written_mem:
  assumes d: "distinct (keys b0)"
    and doc: "(k, Asset n s) \<in> set (merge e b0)"
    and html: "endsWith k ''.html''"
    and rw: "rewrite h cfg opts (merge e b0) (load h s) = (w, Inr d')"
  shows "(resolve h [root cfg, outDir cfg, n], html h d') \<in> set (written (writeBundle h cfg opts e b0))"
proof -
  have dm: "distinct (keys (merge e b0))" using d by (rule distinct_merge)
  from doc html have "(n, s) \<in> set (htmls (merge e b0))"
    by (force simp: htmls_eq [OF dm])
  then show ?thesis
    unfolding written_writeBundle by (rule map_filter_mem) (simp add: rw)
qed

section \<open>References to registered artifacts\<close>

text \<open>An eligible element whose URL resolves to the key of an item of the registry gets
  the \<open>integrity\<close> of that item's content, provided the content is not the empty
  string.\<close>

lemma registered_artifact_integrity:
  assumes wf: "wellFormed b"
    and present: "(k, t) \<in> set b"
    and nonempty: "content_of t \<noteq> Str []"
    and rw: "rewrite h cfg opts b d = (w, Inr d')"
    and i: "i < length d"
    and el: "d ! i = Element n a cs"
    and eli: "eligible (d ! i)"
    and url: "resourceUrl a = Some url"
    and ref: "resourcePath cfg url = k"
  shows "\<exists>a'. d' ! i = Element n a' cs
     \<and> get_prop a' ''integrity'' =
         Some (''sha384-'' @ toString h (createHash h ''sha384''
                 (case t of Asset f s \<Rightarrow> s | Chunk f c \<Rightarrow> Str c)) ''base64'')"
proof -
  from wf present have "get_prop b k = Some t"
    by (simp add: wellFormed_def get_prop_def keys_def)
  with wf have "findItem b k = Some t"
    by (simp add: wellFormed_def findItem_keyed)
  then have rs: "resolveSource h opts b (resourcePath cfg url) = ([], Some (content_of t))"
    by (simp add: ref resolveSource_def)
  have c: "content_of t = (case t of Asset f s \<Rightarrow> s | Chunk f c \<Rightarrow> Str c)"
    by (cases t) (simp_all add: content_of_def)
  have t: "truthy (Some (content_of t))"
    using nonempty by (cases "content_of t") simp_all
  from rewritten_element [OF rw i el eli] url rs t
  obtain a' where "d' ! i = Element n a' cs"
    and "get_prop a' ''integrity'' = Some (integrity h (content_of t))"
    by auto
  then show ?thesis by (auto simp: integrity_def c)
qed

section \<open>The examples, evaluated\<close>

lemmas example_defs =
  exampleHost_def exampleConfig_def exampleOptions_def exampleBundle_def exampleDocument_def
  exampleRewritten_def

lemmas run_defs =
  select_def selected_def eligible_def throws_def warned_def mutated_def
  calculateIntegrityHashes_def resourceUrl_def attributeName_def resourcePath_def
  substring_def resolveSource_def findItem_def entries_def content_of_def readFallback_def
  integrity_def set_prop_def get_prop_def keys_def arrayIndex_def

lemma example_rewrite:
  "rewrite exampleHost exampleConfig exampleOptions exampleBundle exampleDocument =
     ([''cannot find favicon.ico in output bundle.''], Inr exampleRewritten)"
  by (simp add: rewrite_eq run_defs example_defs)

lemma merge_legacy: "merge legacyBundle [] = legacyBundle"
  by (simp add: merge_def entries_def set_prop_def keys_def arrayIndex_def legacyBundle_def)

lemma merge_modern:
  "merge modernBundle legacyBundle =
     [(''legacy.js'', Chunk ''legacy.js'' ''legacy()''),
      (''index.html'', Asset ''index.html'' (Str ''/legacy.js'')),
      (''about.html'', Chunk ''about.html'' ''export {}'')]"
  by (simp add: merge_def entries_def set_prop_def keys_def arrayIndex_def legacyBundle_def
        modernBundle_def)

lemma example_first_pass:
  "registry (writeBundle exampleHost exampleConfig exampleOptions legacyBundle []) = legacyBundle"
  by (simp add: registry_writeBundle merge_legacy)

lemma example_second_pass:
  "writeBundle exampleHost exampleConfig exampleOptions modernBundle legacyBundle =
   \<lparr>registry =
      [(''legacy.js'', Chunk ''legacy.js'' ''legacy()''),
       (''index.html'', Asset ''index.html'' (Str ''/legacy.js'')),
       (''about.html'', Chunk ''about.html'' ''export {}'')],
    warnings = [],
    written =
      [(''/project/dist/index.html'',
        ''<script src=/legacy.js integrity=sha384-base64 crossorigin=anonymous>'')]\<rparr>"
  by (simp add: writeBundle_def merge_modern htmls_def endsWith_def rewrite_eq run_defs
        exampleHost_def exampleConfig_def exampleOptions_def)

section \<open>The properties\<close>

text \<open>
  C1.  The code at an input where the property fails.  The registry holds the asset
  \<open>assets/empty.css\<close>, whose \<open>source\<close> is the empty string, and a \<open>link\<close> element refers
  to it by that exact path.  Line 107 takes the empty string as falsy, as it takes the
  \<open>undefined\<close> that the \<open>catch\<close> of line 97 leaves, and the element gets no \<open>integrity\<close>,
  on every host.  Had the asset's \<open>source\<close> been an empty \<open>Uint8Array\<close>, the same element
  would have got the \<open>integrity\<close> of the empty content.
\<close>

theorem C1_empty_string_artifact_gets_no_integrity:
  "get_prop [(''assets/empty.css'', Asset ''assets/empty.css'' (Str []))] ''assets/empty.css'' =
     Some (Asset ''assets/empty.css'' (Str []))
   \<and> rewrite h exampleConfig opts
        [(''assets/empty.css'', Asset ''assets/empty.css'' (Str []))]
        [Element ''link'' [(''rel'', ''stylesheet''), (''href'', ''assets/empty.css'')] cs] =
       ([], Inr [Element ''link''
                   [(''rel'', ''stylesheet''), (''href'', ''assets/empty.css''),
                    (''crossorigin'', ''anonymous'')] cs])
   \<and> rewrite h exampleConfig opts
        [(''assets/empty.css'', Asset ''assets/empty.css'' (Buf []))]
        [Element ''link'' [(''rel'', ''stylesheet''), (''href'', ''assets/empty.css'')] cs] =
       ([], Inr [Element ''link''
                   [(''rel'', ''stylesheet''), (''href'', ''assets/empty.css''),
                    (''integrity'',
                     ''sha384-'' @ toString h (createHash h ''sha384'' (Buf [])) ''base64''),
                    (''crossorigin'', ''anonymous'')] cs])"
  by (simp add: rewrite_eq run_defs exampleConfig_def)

text \<open>
  C2.  The registry only grows: a pass keeps every key it had, and a key's item after a
  pass is the emitted one if the pass emitted that key, the earlier one otherwise.  So
  when a first pass emits \<open>A\<close> with an artifact under \<open>k\<close> and a second pass emits \<open>B\<close>,
  which has no \<open>k\<close> but has an HTML asset with an eligible element whose URL resolves to
  \<open>k\<close>, the second pass still finds \<open>A\<close>'s item for \<open>k\<close>, logs no warning for it, writes the
  document, and the element's \<open>integrity\<close> there is that of \<open>A\<close>'s item (none is set when
  its content is the empty string).
\<close>

theorem C2_registry_is_merge_only_and_first_pass_stays_resolvable:
  assumes wf0: "wellFormed r0"
    and kA: "keyedByFileName A" and dA: "distinct (keys A)"
    and kB: "keyedByFileName B" and dB: "distinct (keys B)"
    and r1: "r1 = registry (writeBundle h cfg opts A r0)"
    and out: "out = writeBundle h cfg opts B r1"
    and art: "(k, t) \<in> set A" and notB: "k \<notin> set (keys B)"
    and doc: "(kh, Asset nh sh) \<in> set B" and html: "endsWith kh ''.html''"
    and ok: "\<forall>nd \<in> set (load h sh). eligible nd \<longrightarrow> \<not> throws nd"
    and i: "i < length (load h sh)"
    and el: "load h sh ! i = Element n a cs"
    and eli: "eligible (load h sh ! i)"
    and url: "resourceUrl a = Some url"
    and ref: "resourcePath cfg url = k"
  shows "set (keys r0) \<subseteq> set (keys r1) \<and> set (keys r1) \<subseteq> set (keys (registry out))
    \<and> get_prop r1 k' = (case get_prop A k' of Some v \<Rightarrow> Some v | None \<Rightarrow> get_prop r0 k')
    \<and> get_prop (registry out) k' = (case get_prop B k' of Some v \<Rightarrow> Some v | None \<Rightarrow> get_prop r1 k')
    \<and> get_prop (registry out) k = Some t
    \<and> resolveSource h opts (registry out) k = ([], Some (content_of t))
    \<and> (\<exists>w d' a'. rewrite h cfg opts (registry out) (load h sh) = (w, Inr d')
          \<and> (resolve h [root cfg, outDir cfg, nh], html h d') \<in> set (written out)
          \<and> d' ! i = Element n a' cs
          \<and> get_prop a' ''integrity'' =
               (if content_of t = Str [] then get_prop a ''integrity''
                else Some (integrity h (content_of t))))"
proof -
  have r1': "r1 = merge A r0" by (simp add: r1 registry_writeBundle)
  have r2: "registry out = merge B r1" by (simp add: out registry_writeBundle)
  have g1: "get_prop r1 x = (case get_prop A x of Some v \<Rightarrow> Some v | None \<Rightarrow> get_prop r0 x)" for x
    by (simp only: r1' get_merge_distinct [OF dA])
  have g2: "get_prop (registry out) x =
      (case get_prop B x of Some v \<Rightarrow> Some v | None \<Rightarrow> get_prop r1 x)" for x
    by (simp only: r2 get_merge_distinct [OF dB])
  have s1: "set (keys r0) \<subseteq> set (keys r1)" by (auto simp: r1' keys_merge)
  have s2: "set (keys r1) \<subseteq> set (keys (registry out))" by (auto simp: r2 keys_merge)
  from art dA have "get_prop A k = Some t" by (simp add: get_prop_mem)
  moreover from notB have "get_prop B k = None"
    by (simp add: get_prop_def keys_def map_of_eq_None_iff)
  ultimately have gk: "get_prop (registry out) k = Some t"
    by (simp add: g1 g2)
  from wf0 have d1: "distinct (keys r1)" and k1: "keyedByFileName r1"
    by (simp_all add: r1' wellFormed_def distinct_merge keyed_merge kA)
  have k2: "keyedByFileName (registry out)"
    by (simp add: r2 keyed_merge k1 kB)
  have d2: "distinct (keys (registry out))"
    by (simp add: r2 distinct_merge d1)
  from gk k2 have fk: "findItem (registry out) k = Some t"
    by (simp add: findItem_keyed)
  then have rs: "resolveSource h opts (registry out) k = ([], Some (content_of t))"
    by (simp add: resolveSource_def)
  obtain w d' where rw: "rewrite h cfg opts (registry out) (load h sh) = (w, Inr d')"
    using rewrite_returns [OF ok] by blast
  from doc dB have "get_prop B kh = Some (Asset nh sh)" by (simp add: get_prop_mem)
  then have "get_prop (registry out) kh = Some (Asset nh sh)" by (simp add: g2)
  with d2 have "(kh, Asset nh sh) \<in> set (merge B r1)"
    by (simp add: get_prop_mem r2)
  from written_mem [OF d1 this html rw [unfolded r2]]
  have wr: "(resolve h [root cfg, outDir cfg, nh], html h d') \<in> set (written out)"
    by (simp add: out)
  have t: "truthy (Some (content_of t)) \<longleftrightarrow> content_of t \<noteq> Str []"
    by (cases "content_of t") simp_all
  from rewritten_element [OF rw i el eli] url rs [folded ref]
  obtain a' where "d' ! i = Element n a' cs"
    and "get_prop a' ''integrity'' =
          (if truthy (Some (content_of t)) then Some (integrity h (the (Some (content_of t))))
           else get_prop a ''integrity'')"
    by auto
  with t have "d' ! i = Element n a' cs \<and> get_prop a' ''integrity'' =
               (if content_of t = Str [] then get_prop a ''integrity''
                else Some (integrity h (content_of t)))"
    by auto
  with rw wr have "\<exists>w d' a'. rewrite h cfg opts (registry out) (load h sh) = (w, Inr d')
          \<and> (resolve h [root cfg, outDir cfg, nh], html h d') \<in> set (written out)
          \<and> d' ! i = Element n a' cs
          \<and> get_prop a' ''integrity'' =
               (if content_of t = Str [] then get_prop a ''integrity''
                else Some (integrity h (content_of t)))"
    by blast
  with s1 s2 g1 g2 gk rs show ?thesis by blast
qed

theorem C2_witness:
  "wellFormed []
   \<and> keyedByFileName legacyBundle \<and> distinct (keys legacyBundle)
   \<and> keyedByFileName modernBundle \<and> distinct (keys modernBundle)
   \<and> (''legacy.js'', Chunk ''legacy.js'' ''legacy()'') \<in> set legacyBundle
   \<and> ''legacy.js'' \<notin> set (keys modernBundle)
   \<and> (''index.html'', Asset ''index.html'' (Str ''/legacy.js'')) \<in> set modernBundle
   \<and> load exampleHost (Str ''/legacy.js'') ! 0 = Element ''script'' [(''src'', ''/legacy.js'')] []
   \<and> resourcePath exampleConfig ''/legacy.js'' = ''legacy.js''
   \<and> get_prop (registry (writeBundle exampleHost exampleConfig exampleOptions modernBundle
          (registry (writeBundle exampleHost exampleConfig exampleOptions legacyBundle []))))
          ''legacy.js'' = Some (Chunk ''legacy.js'' ''legacy()'')
   \<and> written (writeBundle exampleHost exampleConfig exampleOptions modernBundle
          (registry (writeBundle exampleHost exampleConfig exampleOptions legacyBundle []))) =
       [(''/project/dist/index.html'',
         ''<script src=/legacy.js integrity=sha384-base64 crossorigin=anonymous>'')]"
proof -
  let ?d = "load exampleHost (Str ''/legacy.js'')"
  have wf0: "wellFormed []"
    by (simp add: wellFormed_def keyedByFileName_def keys_def)
  have kA: "keyedByFileName legacyBundle" and dA: "distinct (keys legacyBundle)"
    by (simp_all add: keyedByFileName_def keys_def legacyBundle_def)
  have kB: "keyedByFileName modernBundle" and dB: "distinct (keys modernBundle)"
    by (simp_all add: keyedByFileName_def keys_def modernBundle_def)
  have art: "(''legacy.js'', Chunk ''legacy.js'' ''legacy()'') \<in> set legacyBundle"
    by (simp add: legacyBundle_def)
  have notB: "''legacy.js'' \<notin> set (keys modernBundle)"
    by (simp add: keys_def modernBundle_def)
  have doc: "(''index.html'', Asset ''index.html'' (Str ''/legacy.js'')) \<in> set modernBundle"
    by (simp add: modernBundle_def)
  have html: "endsWith ''index.html'' ''.html''"
    by (simp add: endsWith_def)
  have d: "?d = [Element ''script'' [(''src'', ''/legacy.js'')] []]"
    by (simp add: exampleHost_def)
  have ok: "\<forall>nd \<in> set ?d. eligible nd \<longrightarrow> \<not> throws nd"
    by (simp add: d run_defs)
  have i: "0 < length ?d" by (simp add: d)
  have el: "?d ! 0 = Element ''script'' [(''src'', ''/legacy.js'')] []" by (simp add: d)
  have eli: "eligible (?d ! 0)" by (simp add: d run_defs)
  have url: "resourceUrl [(''src'', ''/legacy.js'')] = Some ''/legacy.js''"
    by (simp add: run_defs)
  have ref: "resourcePath exampleConfig ''/legacy.js'' = ''legacy.js''"
    by (simp add: resourcePath_prefix exampleConfig_def)
  from C2_registry_is_merge_only_and_first_pass_stays_resolvable
         [OF wf0 kA dA kB dB refl refl art notB doc html ok i el eli url ref,
          where k' = "''legacy.js''" and opts = exampleOptions]
  have g: "get_prop (registry (writeBundle exampleHost exampleConfig exampleOptions modernBundle
          (registry (writeBundle exampleHost exampleConfig exampleOptions legacyBundle []))))
          ''legacy.js'' = Some (Chunk ''legacy.js'' ''legacy()'')"
    by (elim conjE) assumption
  have wr: "written (writeBundle exampleHost exampleConfig exampleOptions modernBundle
          (registry (writeBundle exampleHost exampleConfig exampleOptions legacyBundle []))) =
       [(''/project/dist/index.html'',
         ''<script src=/legacy.js integrity=sha384-base64 crossorigin=anonymous>'')]"
    by (simp add: example_first_pass example_second_pass)
  from wf0 kA dA kB dB art notB doc el ref g wr
  show ?thesis
    by blast
qed

text \<open>
  C3.  In a document none of whose eligible elements makes \<open>calculateIntegrityHashes\<close>
  throw, take an eligible element whose URL resolves to a name that no item of the
  registry has as its \<open>fileName\<close> and that cannot be read under the output directory.
  Rewriting the document still returns it: the warning for that name is among those
  logged, the element's \<open>integrity\<close> is what it was before (none is added), and its
  \<open>crossorigin\<close> is the one it had, or \<open>anonymous\<close> if it had none.
\<close>

theorem C3_unresolved_reference_is_skipped_with_a_warning:
  assumes ok: "\<forall>nd \<in> set d. eligible nd \<longrightarrow> \<not> throws nd"
    and i: "i < length d"
    and el: "d ! i = Element n a cs"
    and eli: "eligible (d ! i)"
    and url: "resourceUrl a = Some url"
    and absent: "findItem b (resourcePath cfg url) = None"
    and unread: "readFallback h opts (resourcePath cfg url) = None"
  shows "\<exists>w d' a'. rewrite h cfg opts b d = (w, Inr d')
     \<and> (''cannot find '' @ resourcePath cfg url @ '' in output bundle.'') \<in> set w
     \<and> d' ! i = Element n a' cs
     \<and> get_prop a' ''integrity'' = get_prop a ''integrity''
     \<and> get_prop a' ''crossorigin'' = Some (crossoriginAfter a)"
proof -
  obtain w d' where rw: "rewrite h cfg opts b d = (w, Inr d')"
    using rewrite_returns [OF ok] by blast
  have rs: "resolveSource h opts b (resourcePath cfg url) =
      ([''cannot find '' @ resourcePath cfg url @ '' in output bundle.''], None)"
    by (simp add: resolveSource_def absent unread)
  from rewritten_element [OF rw i el eli] url rs
  obtain a' where "set [''cannot find '' @ resourcePath cfg url @ '' in output bundle.''] \<subseteq> set w"
    and "d' ! i = Element n a' cs"
    and "get_prop a' ''integrity'' = get_prop a ''integrity''"
    and "get_prop a' ''crossorigin'' = Some (crossoriginAfter a)"
    by auto
  with rw show ?thesis by auto
qed

theorem C3_witness:
  "\<not> (\<exists>nd \<in> set exampleDocument. eligible nd \<and> throws nd)
   \<and> exampleDocument ! 2 = Element ''link'' [(''rel'', ''icon''), (''href'', ''/favicon.ico'')] []
   \<and> eligible (exampleDocument ! 2)
   \<and> findItem exampleBundle ''favicon.ico'' = None
   \<and> readFallback exampleHost exampleOptions ''favicon.ico'' = None
   \<and> (\<exists>w d' a'. rewrite exampleHost exampleConfig exampleOptions exampleBundle exampleDocument
                     = (w, Inr d')
        \<and> ''cannot find favicon.ico in output bundle.'' \<in> set w
        \<and> d' ! 2 = Element ''link'' a' []
        \<and> get_prop a' ''integrity'' = None
        \<and> get_prop a' ''crossorigin'' = Some ''anonymous'')"
proof -
  have ok: "\<forall>nd \<in> set exampleDocument. eligible nd \<longrightarrow> \<not> throws nd"
    by (simp add: run_defs example_defs)
  have i: "2 < length exampleDocument" by (simp add: exampleDocument_def)
  have el: "exampleDocument ! 2 = Element ''link'' [(''rel'', ''icon''), (''href'', ''/favicon.ico'')] []"
    by (simp add: exampleDocument_def)
  have eli: "eligible (exampleDocument ! 2)"
    by (simp add: el run_defs)
  have url: "resourceUrl [(''rel'', ''icon''), (''href'', ''/favicon.ico'')] = Some ''/favicon.ico''"
    by (simp add: run_defs)
  have p: "resourcePath exampleConfig ''/favicon.ico'' = ''favicon.ico''"
    by (simp add: resourcePath_prefix exampleConfig_def)
  have absent: "findItem exampleBundle (resourcePath exampleConfig ''/favicon.ico'') = None"
    by (simp add: p run_defs example_defs)
  have unread: "readFallback exampleHost exampleOptions (resourcePath exampleConfig ''/favicon.ico'') = None"
    by (simp add: p run_defs example_defs)
  from C3_unresolved_reference_is_skipped_with_a_warning [OF ok i el eli url absent unread]
    ok el eli absent unread
  show ?thesis
    by (simp add: p crossoriginAfter_def get_prop_def)
qed

text \<open>
  C4 (as amended).  Resolution strips the base path by a pure prefix match, once:
  \<open>indexOf(base) === 0\<close> holds exactly when the base path is a prefix of the URL, and then
  the key is the rest of the URL, character for character (\<open>..\<close>, a query string or a
  second slash stay as they are).  So the URL made of the base path and \<open>p\<close> resolves to
  the key \<open>p\<close>, and a URL that does not start with the base path is the key itself.  The
  URL made of the base path and \<open>p\<close> resolves to the same key, and so to the same content,
  as the URL \<open>p\<close> whenever \<open>p\<close> does not start with the base path again.
\<close>

theorem C4_base_path_is_stripped_once_as_a_prefix:
  "resourcePath cfg url =
     (if prefix (base cfg) url then drop (length (base cfg)) url else url)
   \<and> resourcePath cfg (base cfg @ p) = p
   \<and> (\<not> prefix (base cfg) url \<longrightarrow> resourcePath cfg url = url)
   \<and> (\<not> prefix (base cfg) p \<longrightarrow>
        resourcePath cfg (base cfg @ p) = resourcePath cfg p
        \<and> resolveSource h opts b (resourcePath cfg (base cfg @ p)) =
            resolveSource h opts b (resourcePath cfg p))"
  by (simp add: resourcePath_prefix)

theorem C4_witness:
  "\<not> prefix (base exampleConfig) ''assets/../app.js?v=1''
   \<and> resourcePath exampleConfig ''assets/../app.js?v=1'' = ''assets/../app.js?v=1''
   \<and> resourcePath exampleConfig (base exampleConfig @ ''assets/../app.js?v=1'') =
       ''assets/../app.js?v=1''
   \<and> resourcePath exampleConfig (base exampleConfig @ ''assets/../app.js?v=1'') =
       resourcePath exampleConfig ''assets/../app.js?v=1''
   \<and> resolveSource exampleHost exampleOptions exampleBundle
         (resourcePath exampleConfig (base exampleConfig @ ''assets/../app.js?v=1'')) =
       resolveSource exampleHost exampleOptions exampleBundle
         (resourcePath exampleConfig ''assets/../app.js?v=1'')"
  using C4_base_path_is_stripped_once_as_a_prefix
          [of exampleConfig "''assets/../app.js?v=1''" "''assets/../app.js?v=1''"
              exampleHost exampleOptions exampleBundle]
  by (simp add: exampleConfig_def)

theorem C4_counterexample:
  "prefix (base exampleConfig) ''//x.js''
   \<and> resourcePath exampleConfig ''//x.js'' = ''/x.js''
   \<and> resourcePath exampleConfig ''/x.js'' = ''x.js''
   \<and> findItem [(''x.js'', Chunk ''x.js'' ''x()'')] (resourcePath exampleConfig ''//x.js'') = None
   \<and> findItem [(''x.js'', Chunk ''x.js'' ''x()'')] (resourcePath exampleConfig ''/x.js'') =
       Some (Chunk ''x.js'' ''x()'')"
  by (simp add: resourcePath_prefix exampleConfig_def findItem_def entries_def)

text \<open>
  C5.  In a registry whose items are stored under their \<open>fileName\<close>, the lookup of lines
  86-88 is the lookup of the key derived from the URL, and when the registry has an item
  under that key the content resolved is that item's: the \<open>source\<close> of an asset, the
  \<open>code\<close> of any other item; nothing is logged.
\<close>

theorem C5_registry_lookup_returns_the_content:
  assumes "keyedByFileName b"
    and "get_prop b (resourcePath cfg url) = Some t"
  shows "findItem b (resourcePath cfg url) = Some t
    \<and> resolveSource h opts b (resourcePath cfg url) =
        ([], Some (case t of Asset n s \<Rightarrow> s | Chunk n c \<Rightarrow> Str c))"
  using assms
  by (cases t) (simp_all add: findItem_keyed resolveSource_def content_of_def)

theorem C5_witness:
  "keyedByFileName
     [(''assets/app.js'', Chunk ''assets/app.js'' ''console.log(1)''),
      (''assets/logo.svg'', Asset ''assets/logo.svg'' (Buf [60, 115, 118, 103, 62]))]
   \<and> resolveSource exampleHost exampleOptions
        [(''assets/app.js'', Chunk ''assets/app.js'' ''console.log(1)''),
         (''assets/logo.svg'', Asset ''assets/logo.svg'' (Buf [60, 115, 118, 103, 62]))]
        (resourcePath exampleConfig ''/assets/logo.svg'') =
       ([], Some (Buf [60, 115, 118, 103, 62]))"
proof -
  let ?b = "[(''assets/app.js'', Chunk ''assets/app.js'' ''console.log(1)''),
      (''assets/logo.svg'', Asset ''assets/logo.svg'' (Buf [60, 115, 118, 103, 62]))]"
  have k: "keyedByFileName ?b" by (simp add: keyedByFileName_def)
  have g: "get_prop ?b (resourcePath exampleConfig ''/assets/logo.svg'') =
      Some (Asset ''assets/logo.svg'' (Buf [60, 115, 118, 103, 62]))"
    by (simp add: resourcePath_prefix exampleConfig_def get_prop_def)
  from C5_registry_lookup_returns_the_content [OF k g, of exampleHost exampleOptions] k
  show ?thesis by simp
qed

text \<open>
  C6.  The code at the input where the property fails.  A \<open>script\<close> element whose \<open>src\<close> is
  present and empty, with no \<open>href\<close>, is selected by line 73, but line 78 takes the empty
  \<open>src\<close> as falsy and reads \<open>href\<close>, so line 82 throws a \<open>TypeError\<close> before line 113 is
  reached: the element gets no \<open>crossorigin\<close>, the document's rewriting is rejected, and
  no file is written for it.
\<close>

theorem C6_script_with_empty_src_rejects_the_document:
  "eligible (Element ''script'' [(''src'', [])] cs)
   \<and> calculateIntegrityHashes h cfg opts b [(''src'', [])] = ([], Inl TypeError)
   \<and> rewrite h cfg opts b [Element ''script'' [(''src'', [])] cs] = ([], Inl TypeError)
   \<and> written (writeBundle exampleHost exampleConfig exampleOptions
                 [(''index.html'', Asset ''index.html'' (Str []))] []) = []"
proof -
  have "merge [(''index.html'', Asset ''index.html'' (Str []))] [] =
      [(''index.html'', Asset ''index.html'' (Str []))]"
    by (simp add: merge_def entries_def set_prop_def keys_def arrayIndex_def)
  then have "written (writeBundle exampleHost exampleConfig exampleOptions
                 [(''index.html'', Asset ''index.html'' (Str []))] []) = []"
    by (simp add: writeBundle_def htmls_def endsWith_def rewrite_eq run_defs exampleHost_def)
  then show ?thesis
    by (simp add: rewrite_eq select_def selected_def eligible_def throws_def warned_def
          calculateIntegrityHashes_def resourceUrl_def attributeName_def get_prop_def)
qed

text \<open>
  C7.  A second pass that emits the same bundle leaves the registry as the first pass
  left it, and so repeats the first pass's outcome: the same registry, the same warnings
  and, for every document, the same text written to the same path.  And rewriting a
  document that rewriting has returned returns it again, with the same warnings.
\<close>

theorem C7_rewriting_again_repeats_the_output:
  assumes "distinct (keys b0)" and "distinct (keys e)"
    and "rewrite h cfg opts b d = (w, Inr d')"
  shows "writeBundle h cfg opts e (registry (writeBundle h cfg opts e b0)) =
         writeBundle h cfg opts e b0
    \<and> rewrite h cfg opts b d' = (w, Inr d')"
proof -
  have "merge e (merge e b0) = merge e b0"
    using assms(1,2) by (rule merge_idem)
  then have "writeBundle h cfg opts e (registry (writeBundle h cfg opts e b0)) =
         writeBundle h cfg opts e b0"
    by (simp add: writeBundle_def Let_def)
  with rewrite_fixpoint [OF assms(3)] show ?thesis by simp
qed

theorem C7_witness:
  "distinct (keys legacyBundle) \<and> distinct (keys modernBundle)
   \<and> rewrite exampleHost exampleConfig exampleOptions exampleBundle exampleDocument =
       ([''cannot find favicon.ico in output bundle.''], Inr exampleRewritten)
   \<and> writeBundle exampleHost exampleConfig exampleOptions modernBundle
        (registry (writeBundle exampleHost exampleConfig exampleOptions modernBundle legacyBundle)) =
       writeBundle exampleHost exampleConfig exampleOptions modernBundle legacyBundle
   \<and> written (writeBundle exampleHost exampleConfig exampleOptions modernBundle legacyBundle) =
       [(''/project/dist/index.html'',
         ''<script src=/legacy.js integrity=sha384-base64 crossorigin=anonymous>'')]
   \<and> rewrite exampleHost exampleConfig exampleOptions exampleBundle exampleRewritten =
       ([''cannot find favicon.ico in output bundle.''], Inr exampleRewritten)"
proof -
  have dA: "distinct (keys legacyBundle)"
    by (simp add: keys_def legacyBundle_def)
  have dB: "distinct (keys modernBundle)"
    by (simp add: keys_def modernBundle_def)
  from C7_rewriting_again_repeats_the_output
         [OF dA dB example_rewrite] dA dB example_rewrite
  show ?thesis
    by (simp add: example_second_pass)
qed

text \<open>
  C8.  A rewritten document has the nodes of the original at the same addresses.  A node
  that is not a \<open>script\<close> element with a \<open>src\<close> or a \<open>link\<close> element with an \<open>href\<close>
  (whatever its \<open>rel\<close>) is unchanged.  Such an element keeps its tag name and its children,
  its attributes other than \<open>integrity\<close> and \<open>crossorigin\<close> are the same, in the same
  order, and it has a \<open>crossorigin\<close>.
\<close>

theorem C8_only_eligible_elements_and_two_attributes_change:
  assumes "rewrite h cfg opts b d = (w, Inr d')"
  shows "length d' = length d
    \<and> (\<forall>i < length d.
         case d ! i of
           Element n a cs \<Rightarrow>
             if (n = ''script'' \<and> get_prop a ''src'' \<noteq> None)
                \<or> (n = ''link'' \<and> get_prop a ''href'' \<noteq> None)
             then \<exists>a'. d' ! i = Element n a' cs \<and> others a' = others a
                       \<and> get_prop a' ''crossorigin'' \<noteq> None
             else d' ! i = d ! i
         | Other s \<Rightarrow> d' ! i = d ! i)"
proof (intro conjI allI impI)
  show "length d' = length d"
    by (simp add: rewrite_Inr(1) [OF assms])
next
  fix i assume i: "i < length d"
  show "case d ! i of
           Element n a cs \<Rightarrow>
             if (n = ''script'' \<and> get_prop a ''src'' \<noteq> None)
                \<or> (n = ''link'' \<and> get_prop a ''href'' \<noteq> None)
             then \<exists>a'. d' ! i = Element n a' cs \<and> others a' = others a
                       \<and> get_prop a' ''crossorigin'' \<noteq> None
             else d' ! i = d ! i
         | Other s \<Rightarrow> d' ! i = d ! i"
  proof (cases "d ! i")
    case (Other s)
    with i show ?thesis
      by (simp add: rewrite_Inr(1) [OF assms] eligible_def selected_def)
  next
    case (Element n a cs)
    show ?thesis
    proof (cases "eligible (d ! i)")
      case True
      from rewritten_element [OF assms i Element True]
      obtain a' where "d' ! i = Element n a' cs" "others a' = others a"
        "get_prop a' ''crossorigin'' = Some (crossoriginAfter a)"
        by blast
      moreover from True have "(n = ''script'' \<and> get_prop a ''src'' \<noteq> None)
                \<or> (n = ''link'' \<and> get_prop a ''href'' \<noteq> None)"
        by (simp add: Element eligible_Element)
      ultimately show ?thesis
        by (auto simp: Element)
    next
      case False
      with i have same: "d' ! i = d ! i"
        by (simp add: rewrite_Inr(1) [OF assms])
      from False have "\<not> ((n = ''script'' \<and> get_prop a ''src'' \<noteq> None)
                \<or> (n = ''link'' \<and> get_prop a ''href'' \<noteq> None))"
        by (simp add: Element eligible_Element)
      with same show ?thesis
        by (auto simp: Element)
    qed
  qed
qed

theorem C8_witness:
  "rewrite exampleHost exampleConfig exampleOptions exampleBundle exampleDocument =
     ([''cannot find favicon.ico in output bundle.''], Inr exampleRewritten)
   \<and> length exampleRewritten = length exampleDocument
   \<and> exampleRewritten ! 0 = exampleDocument ! 0
   \<and> others (attribs (exampleRewritten ! 2)) = others (attribs (exampleDocument ! 2))
   \<and> exampleRewritten ! 4 = exampleDocument ! 4
   \<and> exampleRewritten ! 5 = exampleDocument ! 5"
  using C8_only_eligible_elements_and_two_attributes_change [OF example_rewrite] example_rewrite
  by (simp add: exampleRewritten_def exampleDocument_def others_def)

text \<open>
  C9 (as amended).  When the content resolved for an eligible element is the empty
  string, the rewritten element's \<open>integrity\<close> is what it was before (none is added);
  any other content is hashed, an empty buffer too, whether it is an asset's
  \<open>Uint8Array\<close> or an empty file read from the output directory.  In both cases the
  element's \<open>crossorigin\<close> is the one it had, or \<open>anonymous\<close> if it had none.
\<close>

theorem C9_empty_string_is_skipped_empty_buffer_is_hashed:
  assumes rw: "rewrite h cfg opts b d = (w, Inr d')"
    and i: "i < length d"
    and el: "d ! i = Element n a cs"
    and eli: "eligible (d ! i)"
    and url: "resourceUrl a = Some url"
    and src: "snd (resolveSource h opts b (resourcePath cfg url)) = Some src"
  shows "\<exists>a'. d' ! i = Element n a' cs
     \<and> get_prop a' ''integrity'' =
         (if src = Str [] then get_prop a ''integrity'' else Some (integrity h src))
     \<and> get_prop a' ''crossorigin'' = Some (crossoriginAfter a)"
proof -
  have t: "truthy (Some src) \<longleftrightarrow> src \<noteq> Str []"
    by (cases src) simp_all
  from rewritten_element [OF rw i el eli] url src
  obtain a' where "d' ! i = Element n a' cs"
    and "get_prop a' ''integrity'' =
          (if truthy (Some src) then Some (integrity h (the (Some src))) else get_prop a ''integrity'')"
    and "get_prop a' ''crossorigin'' = Some (crossoriginAfter a)"
    by auto
  then show ?thesis by (auto simp: t)
qed

theorem C9_witness:
  "rewrite exampleHost exampleConfig exampleOptions exampleBundle exampleDocument =
     ([''cannot find favicon.ico in output bundle.''], Inr exampleRewritten)
   \<and> exampleDocument ! 3 =
       Element ''link'' [(''rel'', ''stylesheet''), (''href'', ''/assets/empty.css'')] []
   \<and> eligible (exampleDocument ! 3)
   \<and> snd (resolveSource exampleHost exampleOptions exampleBundle
            (resourcePath exampleConfig ''/assets/empty.css'')) = Some (Str [])
   \<and> (\<exists>a'. exampleRewritten ! 3 = Element ''link'' a' []
         \<and> get_prop a' ''integrity'' = None
         \<and> get_prop a' ''crossorigin'' = Some ''anonymous'')"
proof -
  have i: "3 < length exampleDocument" by (simp add: exampleDocument_def)
  have el: "exampleDocument ! 3 =
       Element ''link'' [(''rel'', ''stylesheet''), (''href'', ''/assets/empty.css'')] []"
    by (simp add: exampleDocument_def)
  have eli: "eligible (exampleDocument ! 3)"
    by (simp add: el run_defs)
  have url: "resourceUrl [(''rel'', ''stylesheet''), (''href'', ''/assets/empty.css'')] =
      Some ''/assets/empty.css''"
    by (simp add: run_defs)
  have p: "resourcePath exampleConfig ''/assets/empty.css'' = ''assets/empty.css''"
    by (simp add: resourcePath_prefix exampleConfig_def)
  have src: "snd (resolveSource exampleHost exampleOptions exampleBundle
            (resourcePath exampleConfig ''/assets/empty.css'')) = Some (Str [])"
    by (simp add: p run_defs example_defs)
  from C9_empty_string_is_skipped_empty_buffer_is_hashed [OF example_rewrite i el eli url src]
    example_rewrite el eli src
  show ?thesis
    by (simp add: crossoriginAfter_def get_prop_def)
qed

theorem C9_counterexample:
  "readFallback exampleHost exampleOptions ''empty.js'' = Some (Buf [])
   \<and> rewrite exampleHost exampleConfig exampleOptions []
        [Element ''script'' [(''src'', ''/empty.js'')] []] =
       ([''cannot find empty.js in output bundle.''],
        Inr [Element ''script''
               [(''src'', ''/empty.js''), (''integrity'', ''sha384-base64''),
                (''crossorigin'', ''anonymous'')] []])"
  by (simp add: rewrite_eq run_defs example_defs)

text \<open>
  C10.  After a pass, the documents rewritten are exactly the entries of the registry
  whose key ends with \<open>.html\<close> and whose item is an asset, in the registry's order, each
  under its item's \<open>fileName\<close>; the warnings are those of rewriting these documents, and
  the files written are those of the documents among them whose rewriting is not
  rejected.  An item that is not an asset is none of them, whatever its key.
\<close>

theorem C10_only_html_assets_are_rewritten:
  assumes "distinct (keys b0)"
    and "out = writeBundle h cfg opts e b0"
  shows "htmls (registry out) = map (\<lambda>(k, t). (fileName t, source t)) (htmlAssets (registry out))
    \<and> warnings out =
        concat (map (\<lambda>(k, t). fst (rewrite h cfg opts (registry out) (load h (source t))))
                  (htmlAssets (registry out)))
    \<and> written out =
        List.map_filter
          (\<lambda>(k, t). case rewrite h cfg opts (registry out) (load h (source t)) of
               (w, Inl x) \<Rightarrow> None
             | (w, Inr d') \<Rightarrow> Some (resolve h [root cfg, outDir cfg, fileName t], html h d'))
          (htmlAssets (registry out))
    \<and> (\<forall>k n c. (k, Chunk n c) \<notin> set (htmlAssets (registry out)))"
proof -
  have r: "registry out = merge e b0"
    by (simp add: assms(2) registry_writeBundle)
  have d: "distinct (keys (merge e b0))"
    using assms(1) by (rule distinct_merge)
  have h1: "htmls (merge e b0) =
      map (\<lambda>(k, t). (fileName t, source t)) (htmlAssets (merge e b0))"
    unfolding htmlAssets_def by (rule htmls_eq [OF d])
  have h2: "written out =
        List.map_filter
          (\<lambda>(k, t). case rewrite h cfg opts (merge e b0) (load h (source t)) of
               (w, Inl x) \<Rightarrow> None
             | (w, Inr d') \<Rightarrow> Some (resolve h [root cfg, outDir cfg, fileName t], html h d'))
          (htmlAssets (merge e b0))"
    by (simp add: assms(2) written_writeBundle h1 map_filter_docs)
  have h4: "warnings out =
        concat (map (\<lambda>(k, t). fst (rewrite h cfg opts (merge e b0) (load h (source t))))
                  (htmlAssets (merge e b0)))"
    by (simp add: assms(2) warnings_writeBundle h1 concat_map_docs del: map_map)
  have h3: "\<forall>k n c. (k, Chunk n c) \<notin> set (htmlAssets (merge e b0))"
    by (simp add: htmlAssets_def)
  from h1 h2 h3 h4 show ?thesis by (simp add: r)
qed

theorem C10_witness:
  "distinct (keys legacyBundle)
   \<and> (''about.html'', Chunk ''about.html'' ''export {}'')
        \<in> set (registry (writeBundle exampleHost exampleConfig exampleOptions modernBundle legacyBundle))
   \<and> htmlAssets (registry (writeBundle exampleHost exampleConfig exampleOptions modernBundle legacyBundle)) =
       [(''index.html'', Asset ''index.html'' (Str ''/legacy.js''))]
   \<and> htmls (registry (writeBundle exampleHost exampleConfig exampleOptions modernBundle legacyBundle)) =
       [(''index.html'', Str ''/legacy.js'')]
   \<and> written (writeBundle exampleHost exampleConfig exampleOptions modernBundle legacyBundle) =
       [(''/project/dist/index.html'',
         ''<script src=/legacy.js integrity=sha384-base64 crossorigin=anonymous>'')]"
proof -
  have dA: "distinct (keys legacyBundle)"
    by (simp add: keys_def legacyBundle_def)
  from C10_only_html_assets_are_rewritten
         [OF dA refl, of exampleHost exampleConfig exampleOptions modernBundle] dA
  show ?thesis
    by (simp add: example_second_pass htmlAssets_def endsWith_def)
qed

end
